(* ===== verification/Prelude.thy ===== *)
theory Prelude
  imports Main "HOL-Library.AList" "HOL-Library.Multiset" "HOL-Library.Char_ord"
    "HOL-Library.List_Lexorder"
begin

text \<open>
  Shared vocabulary of the SwiftCache development: the outcome type of code that can leave the
  defined behaviour of C++ (signed overflow, a dangling iterator, an exception nobody catches),
  64-bit ranges, the interface of the hash maps the program keeps its state in, the interface of
  its length-prefixed encodings, and the interface of a state machine with an invariant. The
  orders of \<open>Char_ord\<close> and \<open>List_Lexorder\<close> make \<open>string\<close> a linear order that
  compares bytes as unsigned characters, as \<open>std::string::operator<\<close> does.
\<close>

named_theorems store_defs
  \<comment> \<open>the definitions of the datastore's primitive state updates\<close>
named_theorems wf_intros
  \<comment> \<open>rules that an operation keeps the well-formedness of a datastore\<close>
named_theorems view_simps
  \<comment> \<open>how an operation changes what a client can see\<close>
named_theorems cfg_simps
  \<comment> \<open>the fields an operation leaves alone\<close>

section \<open>Outcomes\<close>

text \<open>
  The ways a run of the program can leave the behaviour C++ defines for it: a signed integer
  operation overflows, an iterator is used after its element was erased or after a rehash, an
  allocation request or a file system operation fails with an exception that no caller catches, a
  thread object that still owns a thread is assigned to, which ends the process.
\<close>

datatype fault = SignedOverflow | DanglingIterator | AllocationFailure | FilesystemError | ThreadOverwritten

type_synonym 'a outcome = "fault + 'a"

fun and_then :: "'a outcome \<Rightarrow> ('a \<Rightarrow> 'b outcome) \<Rightarrow> 'b outcome" where
  "and_then (Inl f) g = Inl f"
| "and_then (Inr x) g = g x"

lemma and_then_Inr_iff [simp]:
  "and_then m g = Inr y \<longleftrightarrow> (\<exists>x. m = Inr x \<and> g x = Inr y)"
  by (cases m) auto

section \<open>64-bit ranges\<close>

definition llong_max :: int where
  "llong_max = 9223372036854775807"

definition llong_min :: int where
  "llong_min = - 9223372036854775808"

definition in_llong :: "int \<Rightarrow> bool" where
  "in_llong i \<longleftrightarrow> llong_min \<le> i \<and> i \<le> llong_max"

text \<open>The result of a signed 64-bit computation whose mathematical value is \<open>i\<close>.\<close>

definition checked :: "int \<Rightarrow> int outcome" where
  "checked i = (if in_llong i then Inr i else Inl SignedOverflow)"

lemma checked_Inr_iff [simp]: "checked i = Inr j \<longleftrightarrow> in_llong i \<and> j = i"
  by (auto simp: checked_def)

section \<open>Hash maps as association lists\<close>

text \<open>
  The contract of the unordered maps of the program: a lookup after an insertion, after an erase
  and in the empty map, and the number of entries each leaves behind.
\<close>

locale umap =
  fixes find :: "'m \<Rightarrow> 'k \<Rightarrow> 'v option"
    and insert :: "'k \<Rightarrow> 'v \<Rightarrow> 'm \<Rightarrow> 'm"
    and erase :: "'k \<Rightarrow> 'm \<Rightarrow> 'm"
    and size :: "'m \<Rightarrow> nat"
    and invar :: "'m \<Rightarrow> bool"
  assumes find_insert: "find (insert k v m) = (find m)(k \<mapsto> v)"
    and find_erase: "find (erase k m) = (find m)(k := None)"
    and size_dom: "invar m \<Longrightarrow> size m = card (dom (find m))"
    and finite_dom: "finite (dom (find m))"
    and invar_insert: "invar m \<Longrightarrow> invar (insert k v m)"
    and invar_erase: "invar m \<Longrightarrow> invar (erase k m)"
begin

lemma find_insert_same: "find (insert k v m) k = Some v"
  by (simp add: find_insert)

lemma find_insert_other: "k' \<noteq> k \<Longrightarrow> find (insert k v m) k' = find m k'"
  by (simp add: find_insert)

lemma size_insert:
  "invar m \<Longrightarrow> size (insert k v m) = (if find m k = None then Suc (size m) else size m)"
  by (auto simp: size_dom invar_insert find_insert finite_dom card_insert_if domIff)

lemma size_erase:
  "invar m \<Longrightarrow> size (erase k m) = (if find m k = None then size m else size m - 1)"
  by (auto simp: size_dom invar_erase find_erase finite_dom card_Diff_singleton_if domIff)

lemma size_erase_less: "invar m \<Longrightarrow> find m k = Some v \<Longrightarrow> size (erase k m) < size m"
proof -
  assume inv: "invar m" and fk: "find m k = Some v"
  have "0 < card (dom (find m))" using fk by (auto simp: card_gt_0_iff finite_dom)
  then show ?thesis using inv fk by (simp add: size_erase size_dom)
qed

end

abbreviation keys_of :: "('k \<times> 'v) list \<Rightarrow> 'k list" where
  "keys_of m \<equiv> map fst m"

abbreviation distinct_keys :: "('k \<times> 'v) list \<Rightarrow> bool" where
  "distinct_keys m \<equiv> distinct (keys_of m)"

lemma length_eq_card_dom: "distinct_keys m \<Longrightarrow> length m = card (dom (map_of m))"
  by (simp add: dom_map_of_conv_image_fst distinct_card flip: set_map)

interpretation amap: umap map_of AList.update AList.delete length distinct_keys
  by unfold_locales
    (auto simp: AList.update_conv' AList.delete_conv' length_eq_card_dom finite_dom_map_of
      AList.distinct_update distinct_delete)

lemma distinct_keys_sort_key [simp]: "distinct_keys (sort_key f m) = distinct_keys m"
  by (simp add: distinct_map)

lemma map_of_sort_key:
  assumes "distinct_keys m"
  shows "map_of (sort_key f m) = map_of m"
proof -
  have "distinct_keys (sort_key f m)" using assms by simp
  moreover have "set (sort_key f m) = set m" by simp
  ultimately show ?thesis using assms by (metis map_of_inject_set)
qed

lemma delete_notin: "k \<notin> set (keys_of m) \<Longrightarrow> AList.delete k m = m"
  by (induction m) (auto simp: AList.delete_eq)

lemma sum_list_delete_le:
  "sum_list (map f (AList.delete k m)) \<le> (sum_list (map f m) :: nat)"
  by (induction m) (auto simp: AList.delete_eq)

section \<open>Length-prefixed encodings\<close>

text \<open>
  The contract of an encoder and its decoder over byte strings: on a valid value the decoder
  returns it and leaves exactly the bytes that follow the encoding. Decoding a counted sequence
  of such values follows once and for all.
\<close>

type_synonym 'a decoded = "('a \<times> string) option outcome"

text \<open>
  A decoder takes a value off the front of its input. It can fail cleanly (\<open>None\<close>) and it can fault.
\<close>

fun read_then :: "'a decoded \<Rightarrow> ('a \<Rightarrow> string \<Rightarrow> 'b decoded) \<Rightarrow> 'b decoded" where
  "read_then (Inl f) g = Inl f"
| "read_then (Inr None) g = Inr None"
| "read_then (Inr (Some (x, r))) g = g x r"

fun decode_n :: "(string \<Rightarrow> 'a decoded) \<Rightarrow> nat \<Rightarrow> string \<Rightarrow> 'a list decoded" where
  "decode_n dec 0 s = Inr (Some ([], s))"
| "decode_n dec (Suc n) s =
     read_then (dec s) (\<lambda>x r. read_then (decode_n dec n r) (\<lambda>xs r'. Inr (Some (x # xs, r'))))"

locale prefix_codec =
  fixes enc :: "'a \<Rightarrow> string"
    and dec :: "string \<Rightarrow> 'a decoded"
    and valid :: "'a \<Rightarrow> bool"
  assumes dec_enc: "valid x \<Longrightarrow> dec (enc x @ r) = Inr (Some (x, r))"
begin

lemma decode_n_enc:
  "\<forall>x\<in>set xs. valid x \<Longrightarrow> decode_n dec (length xs) (concat (map enc xs) @ r) = Inr (Some (xs, r))"
  by (induction xs) (auto simp: dec_enc)

lemma enc_inj: "valid x \<Longrightarrow> valid y \<Longrightarrow> enc x = enc y \<Longrightarrow> x = y"
  using dec_enc [of x "[]"] dec_enc [of y "[]"] by simp

end

section \<open>State machines with an invariant\<close>

text \<open>
  The contract of a component driven by requests: every acceptable request keeps the
  invariant. Runs of such requests then keep it too.
\<close>

fun run_steps :: "('e \<Rightarrow> 's \<Rightarrow> 's) \<Rightarrow> 'e list \<Rightarrow> 's \<Rightarrow> 's" where
  "run_steps step [] s = s"
| "run_steps step (e # es) s = run_steps step es (step e s)"

lemma run_steps_append: "run_steps f (es @ es') s = run_steps f es' (run_steps f es s)"
  by (induction es arbitrary: s) simp_all

locale machine =
  fixes step :: "'e \<Rightarrow> 's \<Rightarrow> 's"
    and ok :: "'e \<Rightarrow> bool"
    and inv :: "'s \<Rightarrow> bool"
  assumes step_inv: "ok e \<Longrightarrow> inv s \<Longrightarrow> inv (step e s)"
begin

lemma run_inv: "\<forall>e\<in>set es. ok e \<Longrightarrow> inv s \<Longrightarrow> inv (run_steps step es s)"
  by (induction es arbitrary: s) (auto simp: step_inv)

end

end
