(* ===== verification/CppText.thy ===== *)
theory CppText
  imports Prelude
begin

text \<open>
  The text handling of the program: \<open>src/swiftcache/src/utils/StringUtils.cpp\<close> and the
  standard library functions the sources call on strings. A \<open>std::string\<close> is a list of
  bytes (\<open>string\<close>). The character classes are those of the C locale, which the program
  never changes. \<open>std::stoll\<close> and \<open>std::stoull\<close> return \<open>None\<close> where they
  throw \<open>std::invalid_argument\<close> or \<open>std::out_of_range\<close>; every call site of the program
  catches both the same way.
\<close>

section \<open>Characters\<close>

definition code :: "char \<Rightarrow> nat" where
  "code c = of_char c"

definition CR :: char where "CR = CHR 0x0D"

definition LF :: char where "LF = CHR 0x0A"

definition crlf :: string where "crlf = [CR, LF]"

definition isspace :: "char \<Rightarrow> bool" where
  "isspace c \<longleftrightarrow> c = CHR 0x20 \<or> (9 \<le> code c \<and> code c \<le> 13)"

definition isdigit :: "char \<Rightarrow> bool" where
  "isdigit c \<longleftrightarrow> 48 \<le> code c \<and> code c \<le> 57"

definition toupper :: "char \<Rightarrow> char" where
  "toupper c = (if 97 \<le> code c \<and> code c \<le> 122 then char_of (code c - 32) else c)"

definition tolower :: "char \<Rightarrow> char" where
  "tolower c = (if 65 \<le> code c \<and> code c \<le> 90 then char_of (code c + 32) else c)"

lemma code_char_of [simp]: "n < 256 \<Longrightarrow> code (char_of n) = n"
  by (simp add: code_def)

lemma code_less [simp]: "code c < 256"
  using range_nat_of_char by (auto simp: code_def)

lemma code_inject: "code c = code d \<longleftrightarrow> c = d"
  by (simp add: code_def)

lemma code_CR_LF [simp]: "code CR = 13" "code LF = 10" "CR \<noteq> LF" "LF \<noteq> CR"
  by (simp_all add: code_def CR_def LF_def)

lemma isspace_CR_LF [simp]: "isspace CR" "isspace LF"
  by (simp_all add: isspace_def)

section \<open>String utilities\<close>

text \<open>\<open>trimLineEnding\<close> pops line ends off the back, one at a time.\<close>

fun trimLineEnding_rev :: "string \<Rightarrow> string" where
  "trimLineEnding_rev [] = []"
| "trimLineEnding_rev (c # cs) = (if c = LF \<or> c = CR then trimLineEnding_rev cs else c # cs)"

definition trimLineEnding :: "string \<Rightarrow> string" where
  "trimLineEnding s = rev (trimLineEnding_rev (rev s))"

definition toUpper :: "string \<Rightarrow> string" where
  "toUpper s = map toupper s"

definition toLower :: "string \<Rightarrow> string" where
  "toLower s = map tolower s"

text \<open>\<open>s.rfind(p, 0) == 0\<close>: \<open>s\<close> starts with \<open>p\<close>.\<close>

fun starts_with :: "string \<Rightarrow> string \<Rightarrow> bool" where
  "starts_with s [] = True"
| "starts_with [] (p # ps) = False"
| "starts_with (c # s) (p # ps) = (c = p \<and> starts_with s ps)"

lemma starts_with_iff: "starts_with s p \<longleftrightarrow> (\<exists>r. s = p @ r)"
  by (induction s p rule: starts_with.induct) auto

lemma starts_with_append [simp]: "starts_with (p @ r) p"
  by (simp add: starts_with_iff)

lemma toupper_idem [simp]: "toupper (toupper c) = toupper c"
  by (auto simp: toupper_def)

lemma toUpper_idem [simp]: "toUpper (toUpper s) = toUpper s"
  by (simp add: toUpper_def)

lemma toUpper_eq_Nil [simp]: "toUpper s = [] \<longleftrightarrow> s = []"
  by (simp add: toUpper_def)

lemma length_toUpper [simp]: "length (toUpper s) = length s"
  by (simp add: toUpper_def)

lemma trimLineEnding_rev_eq: "trimLineEnding_rev s = dropWhile (\<lambda>c. c = LF \<or> c = CR) s"
  by (induction s) auto

text \<open>What is left does not end in a line end, and only line ends were removed.\<close>

lemma trimLineEnding_spec:
  "\<exists>e. s = trimLineEnding s @ e \<and> set e \<subseteq> {LF, CR}
     \<and> (trimLineEnding s \<noteq> [] \<longrightarrow> last (trimLineEnding s) \<notin> {LF, CR})"
proof -
  let ?P = "\<lambda>c. c = LF \<or> c = CR"
  have "rev s = takeWhile ?P (rev s) @ dropWhile ?P (rev s)" by simp
  then have "s = rev (dropWhile ?P (rev s)) @ rev (takeWhile ?P (rev s))"
    by (metis rev_append rev_rev_ident)
  moreover have "set (rev (takeWhile ?P (rev s))) \<subseteq> {LF, CR}"
    by (auto dest: set_takeWhileD)
  moreover have "rev (dropWhile ?P (rev s)) \<noteq> [] \<longrightarrow> last (rev (dropWhile ?P (rev s))) \<notin> {LF, CR}"
    using hd_dropWhile [of ?P "rev s"] by (auto simp: last_rev)
  ultimately show ?thesis
    unfolding trimLineEnding_def trimLineEnding_rev_eq by blast
qed

section \<open>Printing integers\<close>

definition digit :: "nat \<Rightarrow> char" where
  "digit n = char_of (48 + n)"

fun show_nat :: "nat \<Rightarrow> string" where
  "show_nat n = (if n < 10 then [digit n] else show_nat (n div 10) @ [digit (n mod 10)])"

declare show_nat.simps [simp del]

text \<open>\<open>std::to_string\<close> on unsigned and on signed integers.\<close>

definition show_int :: "int \<Rightarrow> string" where
  "show_int i = (if i < 0 then CHR ''-'' # show_nat (nat (- i)) else show_nat (nat i))"

section \<open>Reading integers\<close>

definition digits_value :: "string \<Rightarrow> nat" where
  "digits_value ds = foldl (\<lambda>a c. 10 * a + (code c - 48)) 0 ds"

text \<open>
  The common part of \<open>strtoll\<close> and \<open>strtoull\<close>: white space, an optional sign, then the
  longest run of digits. The result is the sign, the magnitude and the number of characters
  consumed; \<open>None\<close> when there is no digit.
\<close>

definition scan_sign :: "string \<Rightarrow> bool \<times> string" where
  "scan_sign s =
     (case s of
        [] \<Rightarrow> (False, [])
      | c # r \<Rightarrow> if c = CHR ''-'' then (True, r) else if c = CHR ''+'' then (False, r) else (False, s))"

definition scan_int :: "string \<Rightarrow> (bool \<times> nat \<times> nat) option" where
  "scan_int s =
     (let (neg, r) = scan_sign (dropWhile isspace s);
          ds = takeWhile isdigit r
      in if ds = [] then None
         else Some (neg, digits_value ds, length s - length r + length ds))"

definition signed :: "bool \<Rightarrow> nat \<Rightarrow> int" where
  "signed neg m = (if neg then - int m else int m)"

definition clamp_llong :: "int \<Rightarrow> int" where
  "clamp_llong i = max llong_min (min llong_max i)"

text \<open>\<open>std::strtoll (s.c_str(), &end, 10)\<close>: the saturated value and the offset of \<open>end\<close>.\<close>

definition strtoll :: "string \<Rightarrow> int \<times> nat" where
  "strtoll s =
     (case scan_int s of
        None \<Rightarrow> (0, 0)
      | Some (neg, m, used) \<Rightarrow> (clamp_llong (signed neg m), used))"

definition stoll :: "string \<Rightarrow> (int \<times> nat) option" where
  "stoll s =
     (case scan_int s of
        None \<Rightarrow> None
      | Some (neg, m, used) \<Rightarrow>
          if in_llong (signed neg m) then Some (signed neg m, used) else None)"

text \<open>
  \<open>std::stoull\<close> accepts a minus sign and negates modulo \<open>2 ^ 64\<close>; it throws when the
  magnitude does not fit.
\<close>

definition stoull :: "string \<Rightarrow> (nat \<times> nat) option" where
  "stoull s =
     (case scan_int s of
        None \<Rightarrow> None
      | Some (neg, m, used) \<Rightarrow>
          if int m < 2 ^ 64 then Some (nat (signed neg m mod 2 ^ 64), used) else None)"

text \<open>The call pattern \<open>parsed = std::stoll(value, &consumed); return consumed == value.size()\<close>.\<close>

definition parse_ll :: "string \<Rightarrow> int option" where
  "parse_ll s =
     (case stoll s of
        None \<Rightarrow> None
      | Some (v, used) \<Rightarrow> if used = length s then Some v else None)"

section \<open>Reading back what was printed\<close>

lemma isdigit_digit [simp]: "n < 10 \<Longrightarrow> isdigit (digit n)"
  by (simp add: isdigit_def digit_def)

lemma show_nat_digits: "c \<in> set (show_nat n) \<Longrightarrow> isdigit c"
proof (induction n rule: show_nat.induct)
  case (1 n)
  then show ?case by (auto simp: show_nat.simps [of n] split: if_splits)
qed

lemma show_nat_nonempty [simp]: "show_nat n \<noteq> []"
  by (subst show_nat.simps) simp

lemma digits_value_snoc: "digits_value (ds @ [c]) = 10 * digits_value ds + (code c - 48)"
  by (simp add: digits_value_def)

lemma digits_value_show_nat [simp]: "digits_value (show_nat n) = n"
proof (induction n rule: show_nat.induct)
  case (1 n)
  show ?case
  proof (cases "n < 10")
    case True
    then show ?thesis by (simp add: show_nat.simps [of n] digits_value_def digit_def)
  next
    case False
    with "1.IH" show ?thesis
      by (simp add: show_nat.simps [of n] digits_value_snoc digit_def)
  qed
qed

lemma isdigit_not_special:
  assumes "isdigit c"
  shows "\<not> isspace c" "c \<noteq> CHR ''-''" "c \<noteq> CHR ''+''" "c \<noteq> CR" "c \<noteq> LF"
  using assms by (auto simp: isdigit_def isspace_def code_def CR_def LF_def)

lemma show_nat_Cons: "\<exists>c cs. show_nat n = c # cs \<and> isdigit c"
  using show_nat_digits [of "hd (show_nat n)" n] by (cases "show_nat n") auto

lemma show_nat_no_line_end [simp]: "LF \<notin> set (show_nat n)" "CR \<notin> set (show_nat n)"
  using show_nat_digits isdigit_not_special by blast+

lemma show_int_no_line_end [simp]: "LF \<notin> set (show_int i)" "CR \<notin> set (show_int i)"
  by (auto simp: show_int_def LF_def CR_def) (simp_all flip: LF_def CR_def)

lemma takeWhile_show_nat: "takeWhile isdigit (show_nat n) = show_nat n"
  by (simp add: takeWhile_eq_all_conv show_nat_digits)

lemma scan_int_show_nat [simp]:
  "scan_int (show_nat n) = Some (False, n, length (show_nat n))"
proof -
  obtain c cs where c: "show_nat n = c # cs" "isdigit c" using show_nat_Cons by blast
  then have "scan_sign (dropWhile isspace (show_nat n)) = (False, show_nat n)"
    by (simp add: scan_sign_def isdigit_not_special)
  then show ?thesis by (simp add: scan_int_def takeWhile_show_nat)
qed

lemma scan_int_show_int [simp]:
  "scan_int (show_int i) = Some (i < 0, nat \<bar>i\<bar>, length (show_int i))"
proof (cases "i < 0")
  case True
  have "scan_sign (dropWhile isspace (CHR ''-'' # show_nat (nat (- i))))
          = (True, show_nat (nat (- i)))"
    by (simp add: scan_sign_def isspace_def code_def)
  with True show ?thesis by (simp add: show_int_def scan_int_def takeWhile_show_nat)
next
  case False
  then show ?thesis by (simp add: show_int_def)
qed

lemma stoll_show_int [simp]:
  "in_llong i \<Longrightarrow> stoll (show_int i) = Some (i, length (show_int i))"
  by (simp add: stoll_def signed_def)

lemma parse_ll_show_int [simp]: "in_llong i \<Longrightarrow> parse_ll (show_int i) = Some i"
  by (simp add: parse_ll_def)

lemma stoull_show_nat [simp]:
  "n < 2 ^ 64 \<Longrightarrow> stoull (show_nat n) = Some (n, length (show_nat n))"
proof -
  assume "n < 2 ^ 64"
  then have "int n mod 2 ^ 64 = int n" by simp
  with \<open>n < 2 ^ 64\<close> show ?thesis by (simp add: stoull_def signed_def)
qed

lemma strtoll_show_nat [simp]:
  "int n \<le> llong_max \<Longrightarrow> strtoll (show_nat n) = (int n, length (show_nat n))"
  by (simp add: strtoll_def signed_def clamp_llong_def llong_min_def)

lemma scan_sign_length: "scan_sign s = (neg, r) \<Longrightarrow> length r \<le> length s"
  by (cases s) (auto simp: scan_sign_def split: if_splits)

text \<open>A result of \<open>std::stoll\<close> is in range and consumes a non-empty prefix.\<close>

lemma scan_int_used: "scan_int s = Some (neg, m, used) \<Longrightarrow> 0 < used \<and> used \<le> length s"
proof -
  assume a: "scan_int s = Some (neg, m, used)"
  obtain ng r where sr: "scan_sign (dropWhile isspace s) = (ng, r)" by fastforce
  have "length r \<le> length (dropWhile isspace s)"
    using sr by (rule scan_sign_length)
  then have "length r \<le> length s" by (rule order_trans) (rule length_dropWhile_le)
  moreover have "length (takeWhile isdigit r) \<le> length r" by (rule length_takeWhile_le)
  moreover have "used = length s - length r + length (takeWhile isdigit r)"
      "takeWhile isdigit r \<noteq> []"
    using a sr by (auto simp: scan_int_def Let_def split: if_splits)
  ultimately show ?thesis by (auto simp flip: length_greater_0_conv)
qed

lemma parse_ll_range: "parse_ll s = Some v \<Longrightarrow> in_llong v"
  by (auto simp: parse_ll_def stoll_def split: option.splits prod.splits if_splits)

lemma stoull_range: "stoull s = Some (v, used) \<Longrightarrow> v < 2 ^ 64"
  by (auto simp: stoull_def nat_less_iff split: option.splits prod.splits if_splits)

section \<open>Lines and words\<close>

text \<open>\<open>std::getline\<close>: fails at the end of the input, otherwise takes up to the next line feed.\<close>

fun take_line :: "string \<Rightarrow> string \<times> string" where
  "take_line [] = ([], [])"
| "take_line (c # s) = (if c = LF then ([], s) else (let (l, r) = take_line s in (c # l, r)))"

definition getline :: "string \<Rightarrow> (string \<times> string) option" where
  "getline s = (if s = [] then None else Some (take_line s))"

lemma take_line_append [simp]: "LF \<notin> set l \<Longrightarrow> take_line (l @ LF # r) = (l, r)"
  by (induction l) auto

lemma getline_append [simp]: "LF \<notin> set l \<Longrightarrow> getline (l @ LF # r) = Some (l, r)"
  by (simp add: getline_def)

lemma take_line_length: "length (snd (take_line s)) \<le> length s"
  by (induction s) (auto simp: Let_def split: prod.splits)

lemma getline_length: "getline s = Some (l, r) \<Longrightarrow> length r < length s"
  using take_line_length [of "tl s"]
  by (cases s) (auto simp: getline_def Let_def split: if_splits prod.splits)

lemma split_words_decreases:
  "dropWhile isspace s \<noteq> [] \<Longrightarrow>
     length (dropWhile (\<lambda>c. \<not> isspace c) (dropWhile isspace s)) < length s"
proof -
  assume ne: "dropWhile isspace s \<noteq> []"
  then obtain c cs where c: "dropWhile isspace s = c # cs" and "\<not> isspace c"
    by (metis hd_dropWhile list.exhaust_sel)
  then have "length (dropWhile (\<lambda>c. \<not> isspace c) (dropWhile isspace s)) \<le> length cs"
    by (simp add: length_dropWhile_le)
  also have "\<dots> < length (dropWhile isspace s)" by (simp add: c)
  also have "\<dots> \<le> length s" by (rule length_dropWhile_le)
  finally show ?thesis .
qed

text \<open>Repeated \<open>stream >> token\<close>: the maximal runs of characters that are not white space.\<close>

function split_words :: "string \<Rightarrow> string list" where
  "split_words s =
     (let r = dropWhile isspace s
      in if r = [] then []
         else takeWhile (\<lambda>c. \<not> isspace c) r # split_words (dropWhile (\<lambda>c. \<not> isspace c) r))"
  by pat_completeness auto
termination
  by (relation "measure length") (auto simp: split_words_decreases)

declare split_words.simps [simp del]

end
