(* ===== verification/PatternMatch.thy ===== *)
theory PatternMatch
  imports CppText
begin

text \<open>
  \<open>DataStore::matchesPattern\<close>, the matcher behind \<open>KEYS\<close> and \<open>SCAN\<close>: an iterative
  glob match that remembers only the last star. The specification \<open>glob\<close> reads a pattern as
  the documentation does (a star stands for any run of characters, a question mark for any
  one character). The matcher is sound for it on every input, and complete on values without a
  literal star; on a value with a literal star it can miss a match, because a star of the
  pattern that meets a star of the value is consumed as an ordinary character.
\<close>

section \<open>The matcher\<close>

function skipStars :: "string \<Rightarrow> nat \<Rightarrow> nat" where
  "skipStars p pi = (if pi < length p \<and> p ! pi = CHR ''*'' then skipStars p (Suc pi) else pi)"
  by pat_completeness auto
termination
  by (relation "measure (\<lambda>(p, pi). length p - pi)") auto

declare skipStars.simps [simp del]

text \<open>
  The loop state is the source's: the two indices, the index of the last star (\<open>None\<close> is
  \<open>npos\<close>) and the index where the text matched by that star currently ends.
\<close>

definition in_order :: "nat \<Rightarrow> nat \<Rightarrow> nat option \<Rightarrow> nat \<Rightarrow> bool" where
  "in_order vi pi star m \<longleftrightarrow> (case star of None \<Rightarrow> True | Some s \<Rightarrow> s < pi \<and> m \<le> vi)"

function matchLoop :: "string \<Rightarrow> string \<Rightarrow> nat \<Rightarrow> nat \<Rightarrow> nat option \<Rightarrow> nat \<Rightarrow> bool" where
  "matchLoop v p vi pi star m =
     (if vi < length v then
        if pi < length p \<and> (p ! pi = CHR ''?'' \<or> p ! pi = v ! vi)
        then matchLoop v p (Suc vi) (Suc pi) star m
        else if pi < length p \<and> p ! pi = CHR ''*''
        then matchLoop v p vi (Suc pi) (Some pi) vi
        else (case star of
                Some s \<Rightarrow> matchLoop v p (Suc m) (Suc s) star (Suc m)
              | None \<Rightarrow> False)
      else skipStars p pi = length p)"
  by pat_completeness auto
termination
  by (relation "measures [\<lambda>(v, p, vi, pi, star, m). if in_order vi pi star m then 0 else 1,
        \<lambda>(v, p, vi, pi, star, m). (case star of None \<Rightarrow> Suc (length p) | Some s \<Rightarrow> length p - s),
        \<lambda>(v, p, vi, pi, star, m). length v - m,
        \<lambda>(v, p, vi, pi, star, m). length v - vi]")
    (auto simp: in_order_def split: option.splits)

declare matchLoop.simps [simp del]

definition matchesPattern :: "string \<Rightarrow> string \<Rightarrow> bool" where
  "matchesPattern value pattern = matchLoop value pattern 0 0 None 0"

section \<open>The specification\<close>

fun glob :: "string \<Rightarrow> string \<Rightarrow> bool" where
  "glob [] v = (v = [])"
| "glob (c # p) v =
     (if c = CHR ''*'' then (\<exists>k\<in>{..length v}. glob p (drop k v))
      else (case v of [] \<Rightarrow> False | d # v' \<Rightarrow> (c = CHR ''?'' \<or> c = d) \<and> glob p v'))"

text \<open>A pattern without stars matches character by character.\<close>

definition same_shape :: "string \<Rightarrow> string \<Rightarrow> bool" where
  "same_shape q w \<longleftrightarrow> list_all2 (\<lambda>c d. c \<noteq> CHR ''*'' \<and> (c = CHR ''?'' \<or> c = d)) q w"

lemma glob_star: "glob (CHR ''*'' # p) v \<longleftrightarrow> (\<exists>k. glob p (drop k v))"
proof
  assume "\<exists>k. glob p (drop k v)"
  then obtain k where "glob p (drop k v)" by blast
  then have "glob p (drop (min k (length v)) v)" by (cases "k \<le> length v") (auto simp: min_def)
  then show "glob (CHR ''*'' # p) v" by auto
qed auto

lemma glob_all_stars: "set p \<subseteq> {CHR ''*''} \<Longrightarrow> glob p []"
  by (induction p) auto

lemma glob_Nil_iff: "glob p [] \<longleftrightarrow> set p \<subseteq> {CHR ''*''}"
  by (induction p) auto

lemma skipStars_iff: "skipStars p pi = length p \<longleftrightarrow> pi \<le> length p \<and> glob (drop pi p) []"
proof (induction p pi rule: skipStars.induct)
  case (1 p pi)
  show ?case
  proof (cases "pi < length p")
    case True
    with "1.IH" show ?thesis
      by (cases "p ! pi = CHR ''*''")
        (auto simp: skipStars.simps [of p pi] Cons_nth_drop_Suc [symmetric])
  next
    case False
    then show ?thesis by (auto simp: skipStars.simps [of p pi])
  qed
qed

lemma glob_prepend: "same_shape q w \<Longrightarrow> glob p v \<Longrightarrow> glob (q @ p) (w @ v)"
  by (induction q arbitrary: w) (auto simp: same_shape_def list_all2_Cons1)

text \<open>Matching a star-free block consumes exactly as many characters as the block has.\<close>

lemma glob_block:
  "CHR ''*'' \<notin> set q \<Longrightarrow>
     glob (q @ p) v \<longleftrightarrow>
       length q \<le> length v \<and> same_shape q (take (length q) v) \<and> glob p (drop (length q) v)"
proof (induction q arbitrary: v)
  case Nil
  then show ?case by (simp add: same_shape_def)
next
  case (Cons c q)
  then show ?case by (cases v) (auto simp: same_shape_def)
qed

section \<open>Soundness\<close>

text \<open>
  What the loop knows when it stands at \<open>(vi, pi)\<close>: matching the rest of the pattern against
  the rest of the value completes a match of the whole pattern against the whole value, and so
  does any later end of the text under the last star.
\<close>

lemma matchLoop_sound:
  assumes "matchLoop v p vi pi star m"
    and "vi \<le> length v" and "pi \<le> length p"
    and "\<And>s. star = Some s \<Longrightarrow> s < length p \<and> m \<le> length v"
    and "glob (drop pi p) (drop vi v) \<Longrightarrow> Q"
    and "\<And>s k. star = Some s \<Longrightarrow> m \<le> k \<Longrightarrow> glob (drop (Suc s) p) (drop k v) \<Longrightarrow> Q"
  shows Q
  using assms
proof (induction v p vi pi star m rule: matchLoop.induct)
  case (1 v p vi pi star m)
  note prems = "1.prems"
  consider (finish) "\<not> vi < length v"
    | (char) "vi < length v" "pi < length p" "p ! pi = CHR ''?'' \<or> p ! pi = v ! vi"
    | (star) "vi < length v" "pi < length p" "p ! pi = CHR ''*''" "\<not> (p ! pi = CHR ''?'' \<or> p ! pi = v ! vi)"
    | (retry) s where "vi < length v" "star = Some s"
        "\<not> (pi < length p \<and> (p ! pi = CHR ''?'' \<or> p ! pi = v ! vi))"
        "\<not> (pi < length p \<and> p ! pi = CHR ''*'')"
    using prems(1) by (auto simp: matchLoop.simps [of v p vi pi star m] split: if_splits option.splits)
  then show ?case
  proof cases
    case finish
    then have "glob (drop pi p) []"
      using prems(1) by (simp add: matchLoop.simps [of v p vi pi star m] skipStars_iff)
    then show ?thesis using prems(5) finish by simp
  next
    case char
    have loop: "matchLoop v p (Suc vi) (Suc pi) star m"
      using prems(1) char by (simp add: matchLoop.simps [of v p vi pi star m])
    have "glob (drop (Suc pi) p) (drop (Suc vi) v) \<Longrightarrow> Q"
    proof -
      assume g: "glob (drop (Suc pi) p) (drop (Suc vi) v)"
      have "glob (drop pi p) (drop vi v)"
      proof (cases "p ! pi = CHR ''*''")
        case True
        have "glob (drop (Suc pi) p) (drop 1 (drop vi v))" using g by simp
        then have "glob (CHR ''*'' # drop (Suc pi) p) (drop vi v)" unfolding glob_star by blast
        with True char(2) show ?thesis by (metis Cons_nth_drop_Suc)
      next
        case False
        with g char show ?thesis
          by (simp add: Cons_nth_drop_Suc [of pi p, symmetric] Cons_nth_drop_Suc [of vi v, symmetric])
      qed
      then show Q by (rule prems(5))
    qed
    with "1.IH"(1) [OF char(1) _ loop] char prems(4,6) show ?thesis by simp
  next
    case star
    have loop: "matchLoop v p vi (Suc pi) (Some pi) vi"
      using prems(1) star by (simp add: matchLoop.simps [of v p vi pi star m])
    have "glob (drop (Suc pi) p) (drop k v) \<Longrightarrow> vi \<le> k \<Longrightarrow> Q" for k
    proof -
      assume g: "glob (drop (Suc pi) p) (drop k v)" and "vi \<le> k"
      then have "glob (drop (Suc pi) p) (drop (k - vi) (drop vi v))" by simp
      then have "glob (CHR ''*'' # drop (Suc pi) p) (drop vi v)" unfolding glob_star by blast
      then have "glob (drop pi p) (drop vi v)" using star(2,3) by (metis Cons_nth_drop_Suc)
      then show Q by (rule prems(5))
    qed
    with "1.IH"(2) [OF star(1) _ _ loop] star show ?thesis by auto
  next
    case retry
    have loop: "matchLoop v p (Suc m) (Suc s) (Some s) (Suc m)"
      using prems(1) retry(2) retry(1,3,4) by (auto simp: matchLoop.simps [of v p vi pi "Some s" m])
    show ?thesis
    proof (cases "m < length v")
      case True
      have later: Q if "m \<le> k" "glob (drop (Suc s) p) (drop k v)" for k
        using prems(6) [OF retry(2) that] .
      show ?thesis
      proof (rule "1.IH"(3) [OF retry(1,3,4,2)])
        show "matchLoop v p (Suc m) (Suc s) star (Suc m)" using loop retry(2) by simp
        show "Suc m \<le> length v" "Suc s \<le> length p"
          using True prems(4) [OF retry(2)] by simp_all
        show "glob (drop (Suc s) p) (drop (Suc m) v) \<Longrightarrow> Q" by (rule later [of "Suc m"]) simp
      qed (use retry(2) True prems(4) in \<open>auto intro: later [OF Suc_leD]\<close>)
    next
      case False
      then have "\<not> Suc m < length v" by simp
      then have "glob (drop (Suc s) p) []"
        using loop by (simp add: matchLoop.simps [of v p "Suc m"] skipStars_iff)
      moreover have "drop m v = []" using False by simp
      ultimately show ?thesis using prems(6) [OF retry(2), of m] by simp
    qed
  qed
qed

section \<open>Completeness on values without a literal star\<close>

text \<open>
  What makes the loop answer yes: before the first star the rest of the pattern matches the rest
  of the value; after a star, the block since that star matches the text just read, and some end
  of the starred text, not before the current one, lets the rest of the pattern match.
\<close>

definition block :: "string \<Rightarrow> nat \<Rightarrow> nat \<Rightarrow> string" where
  "block p s pi = take (pi - Suc s) (drop (Suc s) p)"

definition hopeful :: "string \<Rightarrow> string \<Rightarrow> nat \<Rightarrow> nat \<Rightarrow> nat option \<Rightarrow> nat \<Rightarrow> bool" where
  "hopeful v p vi pi star m \<longleftrightarrow> vi \<le> length v \<and> pi \<le> length p \<and>
     (case star of
        None \<Rightarrow> glob (drop pi p) (drop vi v)
      | Some s \<Rightarrow> s < pi \<and> m \<le> vi \<and> pi + m = vi + Suc s \<and> CHR ''*'' \<notin> set (block p s pi)
          \<and> same_shape (block p s pi) (take (vi - m) (drop m v))
          \<and> (\<exists>k. m \<le> k \<and> k \<le> length v \<and> glob (drop (Suc s) p) (drop k v)))"

lemma block_split: "s < pi \<Longrightarrow> pi \<le> length p \<Longrightarrow> drop (Suc s) p = block p s pi @ drop pi p"
  by (simp add: block_def) (metis Suc_leI append_take_drop_id drop_drop le_add_diff_inverse2)

lemma length_block: "s < pi \<Longrightarrow> pi \<le> length p \<Longrightarrow> length (block p s pi) = pi - Suc s"
  by (auto simp: block_def)

lemma block_Suc:
  "s < pi \<Longrightarrow> pi < length p \<Longrightarrow> block p s (Suc pi) = block p s pi @ [p ! pi]"
proof -
  assume a: "s < pi" "pi < length p"
  then have "Suc pi - Suc s = Suc (pi - Suc s)" "pi - Suc s < length (drop (Suc s) p)" by auto
  then show ?thesis using a by (simp add: block_def take_Suc_conv_app_nth)
qed

text \<open>Where the rest of the pattern after a star matches, it does so behind the current block.\<close>

lemma glob_after_block:
  assumes "s < pi" "pi \<le> length p" "CHR ''*'' \<notin> set (block p s pi)"
    and "glob (drop (Suc s) p) (drop k v)"
  shows "pi - Suc s + k \<le> length v \<or> (pi - Suc s = 0)"
    and "glob (drop pi p) (drop (k + (pi - Suc s)) v)"
  using assms glob_block [OF assms(3), of "drop pi p" "drop k v"]
  by (auto simp: block_split length_block add.commute)

lemma hopeful_finish:
  assumes "hopeful v p vi pi star m" "\<not> vi < length v"
  shows "glob (drop pi p) []"
proof (cases star)
  case None
  then show ?thesis using assms by (auto simp: hopeful_def)
next
  case (Some s)
  with assms obtain k where k: "m \<le> k" "k \<le> length v" "glob (drop (Suc s) p) (drop k v)"
    by (auto simp: hopeful_def)
  have ord: "s < pi" "pi \<le> length p" "CHR ''*'' \<notin> set (block p s pi)" "pi + m = vi + Suc s" "m \<le> vi"
    using assms Some by (auto simp: hopeful_def)
  then have "glob (drop pi p) (drop (k + (pi - Suc s)) v)" using glob_after_block k by blast
  moreover have "length v \<le> k + (pi - Suc s)" using ord k assms(2) by auto
  ultimately show ?thesis by simp
qed

lemma hopeful_char:
  assumes h: "hopeful v p vi pi star m" and "CHR ''*'' \<notin> set v"
    and c: "vi < length v" "pi < length p" "p ! pi = CHR ''?'' \<or> p ! pi = v ! vi"
  shows "hopeful v p (Suc vi) (Suc pi) star m"
proof -
  have ns: "p ! pi \<noteq> CHR ''*''" using c assms(2) nth_mem by fastforce
  show ?thesis
  proof (cases star)
    case None
    then have "glob (p ! pi # drop (Suc pi) p) (v ! vi # drop (Suc vi) v)"
      using h c by (simp add: hopeful_def Cons_nth_drop_Suc)
    then show ?thesis using None c ns by (simp add: hopeful_def)
  next
    case (Some s)
    have "Suc vi - m = Suc (vi - m)" using h Some by (simp add: hopeful_def Suc_diff_le)
    moreover have "take (Suc (vi - m)) (drop m v) = take (vi - m) (drop m v) @ [v ! vi]"
      using h Some c by (auto simp: hopeful_def take_Suc_conv_app_nth)
    moreover have "block p s (Suc pi) = block p s pi @ [p ! pi]"
      using h Some c by (simp add: hopeful_def block_Suc)
    ultimately show ?thesis
      using h Some c ns by (auto simp: hopeful_def same_shape_def intro!: list_all2_appendI)
  qed
qed

lemma hopeful_star:
  assumes h: "hopeful v p vi pi star m" and c: "vi < length v" "pi < length p" "p ! pi = CHR ''*''"
  shows "hopeful v p vi (Suc pi) (Some pi) vi"
proof -
  have "\<exists>b. vi \<le> b \<and> glob (drop pi p) (drop b v)"
  proof (cases star)
    case None
    then show ?thesis using h by (auto simp: hopeful_def)
  next
    case (Some s)
    with h obtain k where k: "m \<le> k" "glob (drop (Suc s) p) (drop k v)" by (auto simp: hopeful_def)
    have "glob (drop pi p) (drop (k + (pi - Suc s)) v)"
      using h Some k glob_after_block [of s pi p k v] by (auto simp: hopeful_def)
    moreover have "vi \<le> k + (pi - Suc s)" using h Some k by (auto simp: hopeful_def)
    ultimately show ?thesis by blast
  qed
  then obtain b where b: "vi \<le> b" "glob (CHR ''*'' # drop (Suc pi) p) (drop b v)"
    using c by (metis Cons_nth_drop_Suc)
  then obtain j where j: "glob (drop (Suc pi) p) (drop (j + b) v)" unfolding glob_star by auto
  have "glob (drop (Suc pi) p) (drop (min (j + b) (length v)) v)"
    using j by (cases "j + b \<le> length v") (auto simp: min_def)
  then have "\<exists>k. vi \<le> k \<and> k \<le> length v \<and> glob (drop (Suc pi) p) (drop k v)"
    using b(1) c(1) by (intro exI [of _ "min (j + b) (length v)"]) auto
  then show ?thesis using c by (simp add: hopeful_def block_def same_shape_def)
qed

lemma glob_stuck:
  assumes "vi < length v" "\<not> (pi < length p \<and> (p ! pi = CHR ''?'' \<or> p ! pi = v ! vi))"
    "\<not> (pi < length p \<and> p ! pi = CHR ''*'')"
  shows "\<not> glob (drop pi p) (drop vi v)"
  using assms
  by (cases "pi < length p")
    (auto simp: Cons_nth_drop_Suc [of pi p, symmetric] Cons_nth_drop_Suc [of vi v, symmetric])

lemma hopeful_retry:
  assumes h: "hopeful v p vi pi (Some s) m" and c: "vi < length v"
    and stuck: "\<not> glob (drop pi p) (drop vi v)"
  shows "hopeful v p (Suc m) (Suc s) (Some s) (Suc m)"
proof -
  from h obtain k where k: "m \<le> k" "k \<le> length v" "glob (drop (Suc s) p) (drop k v)"
    by (auto simp: hopeful_def)
  have "glob (drop pi p) (drop (k + (pi - Suc s)) v)"
    using h k glob_after_block [of s pi p k v] by (auto simp: hopeful_def)
  moreover have "m + (pi - Suc s) = vi" using h by (auto simp: hopeful_def)
  ultimately have "k \<noteq> m" using stuck by auto
  with k(1) have "Suc m \<le> k" by simp
  with h c k show ?thesis by (auto simp: hopeful_def block_def same_shape_def)
qed

lemma matchLoop_complete:
  "hopeful v p vi pi star m \<Longrightarrow> CHR ''*'' \<notin> set v \<Longrightarrow> matchLoop v p vi pi star m"
proof (induction v p vi pi star m rule: matchLoop.induct)
  case (1 v p vi pi star m)
  note unfold = matchLoop.simps [of v p vi pi star m]
  consider (finish) "\<not> vi < length v"
    | (char) "vi < length v" "pi < length p \<and> (p ! pi = CHR ''?'' \<or> p ! pi = v ! vi)"
    | (star) "vi < length v" "\<not> (pi < length p \<and> (p ! pi = CHR ''?'' \<or> p ! pi = v ! vi))"
        "pi < length p \<and> p ! pi = CHR ''*''"
    | (stuck) "vi < length v" "\<not> (pi < length p \<and> (p ! pi = CHR ''?'' \<or> p ! pi = v ! vi))"
        "\<not> (pi < length p \<and> p ! pi = CHR ''*'')"
    by blast
  then show ?case
  proof cases
    case finish
    with hopeful_finish [OF "1.prems"(1)] "1.prems"(1) show ?thesis
      by (subst unfold) (simp add: skipStars_iff hopeful_def)
  next
    case char
    with "1.IH"(1) hopeful_char [OF "1.prems"] "1.prems"(2) show ?thesis by (simp add: unfold)
  next
    case star
    with "1.IH"(2) hopeful_star [OF "1.prems"(1)] "1.prems"(2) show ?thesis by (simp add: unfold)
  next
    case stuck
    have ng: "\<not> glob (drop pi p) (drop vi v)" using stuck by (rule glob_stuck)
    show ?thesis
    proof (cases star)
      case None
      with "1.prems"(1) ng show ?thesis by (simp add: hopeful_def)
    next
      case (Some s)
      with "1.prems"(1) stuck(1) ng have "hopeful v p (Suc m) (Suc s) (Some s) (Suc m)"
        by (auto intro: hopeful_retry)
      with "1.IH"(3) [OF stuck Some] "1.prems"(2) Some stuck show ?thesis
        by (subst unfold) auto
    qed
  qed
qed

section \<open>What the matcher decides\<close>

lemma matchesPattern_sound: "matchesPattern v p \<Longrightarrow> glob p v"
  using matchLoop_sound [of v p 0 0 None 0 "glob p v"] by (simp add: matchesPattern_def)

lemma matchesPattern_complete: "CHR ''*'' \<notin> set v \<Longrightarrow> glob p v \<Longrightarrow> matchesPattern v p"
  using matchLoop_complete [of v p 0 0 None 0] by (simp add: matchesPattern_def hopeful_def)

text \<open>The default pattern of \<open>KEYS\<close> lists every key without a literal star.\<close>

lemma matchesPattern_star: "CHR ''*'' \<notin> set v \<Longrightarrow> matchesPattern v ''*''"
  by (rule matchesPattern_complete) auto

section \<open>Properties\<close>

text \<open>
  C17: the matcher of \<open>KEYS\<close> and \<open>SCAN\<close> agrees with the glob specification: it accepts only
  values the pattern stands for, and on a value without a literal star it accepts all of them.
\<close>

theorem matchesPattern_glob:
  "(matchesPattern v p \<longrightarrow> glob p v) \<and> (CHR ''*'' \<notin> set v \<longrightarrow> matchesPattern v p = glob p v)"
  using matchesPattern_sound matchesPattern_complete by blast

theorem matchesPattern_glob_witness:
  "matchesPattern ''user:1'' ''u*r:?'' \<and> glob ''u*r:?'' ''user:1'' \<and> \<not> matchesPattern ''user:12'' ''u*r:?''"
proof -
  have m: "matchesPattern ''user:1'' ''u*r:?''" "\<not> matchesPattern ''user:12'' ''u*r:?''" by code_simp+
  then show ?thesis using matchesPattern_glob [of "''user:1''" "''u*r:?''"] by simp
qed

text \<open>
  A key with a literal star can be missed: \<open>KEYS *\<close>, which stands for every key, does not list
  the key \<open>*a\<close>.
\<close>

lemma matchesPattern_literal_star: "\<not> matchesPattern ''*a'' ''*'' \<and> glob ''*'' ''*a''"
proof
  show "\<not> matchesPattern ''*a'' ''*''" by code_simp
  show "glob ''*'' ''*a''" unfolding glob_star by (rule exI [of _ 2]) simp
qed

end
