(* ===== verification/StoreCore.thy ===== *)
theory StoreCore
  imports PatternMatch
begin

text \<open>
  The state of \<open>DataStore\<close> (\<open>src/swiftcache/src/datastore\<close>), its private helpers and its
  eviction loop. The map \<open>values_\<close> is an association list with distinct keys. What the
  C++ implementation leaves open is the argument \<open>env\<close> of the operations: the readings of the
  system clock during a call (the \<open>n\<close>-th call of \<open>nowMillis\<close> returns \<open>clock e n\<close>), the
  iteration order of the hash table (given by a rank of the keys; an unordered map keeps the
  relative order of its elements when one is erased), the numbers drawn by the random generator,
  whether an insertion into a table of a given size rehashes it, and the sizes of two types.
  The mutex of a store serialises the operations, so each is one function of the state.
\<close>

section \<open>Data\<close>

abbreviation type_String :: string where "type_String \<equiv> ''string''"
abbreviation type_List :: string where "type_List \<equiv> ''list''"
abbreviation type_Hash :: string where "type_Hash \<equiv> ''hash''"
abbreviation type_Set :: string where "type_Set \<equiv> ''set''"

record ValueObject =
  vo_value :: string
  vo_list :: "string list"
  vo_hash :: "(string \<times> string) list"
  vo_set :: "string list"
  vo_type :: string
  createdAt :: int
  expiresAt :: int
  lastAccessedAt :: int

type_synonym keyspace = "(string \<times> ValueObject) list"

record StoreStats =
  stat_keys :: nat
  stat_estimatedBytes :: nat
  stat_evictedKeys :: nat
  stat_expiredKeys :: nat

datatype EvictionPolicy = PolicyNone | AllKeysLru | VolatileLru | TtlPriority | RandomPolicy

record EvictionConfig =
  maxKeys :: nat
  maxMemoryBytes :: nat
  policy :: EvictionPolicy

datatype DataStoreStatus = Ok | Missing | WrongType

record DataStore =
  store_values :: keyspace
  evictionConfig :: EvictionConfig
  evictedKeys :: nat
  expiredKeys :: nat

record env =
  clock :: "nat \<Rightarrow> int"
  rank :: "string \<Rightarrow> nat"
  draw :: "nat \<Rightarrow> nat"
  rehashes :: "nat \<Rightarrow> bool"
  sizeofValueObject :: nat
  sizeofString :: nat

text \<open>A concrete environment: a clock that stands still, keys walked by length, no rehashing.\<close>

definition frozen :: "int \<Rightarrow> env" where
  "frozen now = \<lparr>clock = \<lambda>_. now, rank = length, draw = \<lambda>_. 0, rehashes = \<lambda>_. False,
     sizeofValueObject = 200, sizeofString = 32\<rparr>"

definition default_eviction :: EvictionConfig where
  "default_eviction = \<lparr>maxKeys = 0, maxMemoryBytes = 0, policy = PolicyNone\<rparr>"

definition empty_store :: DataStore where
  "empty_store = \<lparr>store_values = [], evictionConfig = default_eviction,
     evictedKeys = 0, expiredKeys = 0\<rparr>"

section \<open>Primitive accesses\<close>

definition find_key :: "string \<Rightarrow> DataStore \<Rightarrow> ValueObject option" where
  "find_key k s = map_of (store_values s) k"

definition put_key :: "string \<Rightarrow> ValueObject \<Rightarrow> DataStore \<Rightarrow> DataStore" where
  "put_key k obj s = s\<lparr>store_values := AList.update k obj (store_values s)\<rparr>"

definition erase_key :: "string \<Rightarrow> DataStore \<Rightarrow> DataStore" where
  "erase_key k s = s\<lparr>store_values := AList.delete k (store_values s)\<rparr>"

definition isExpired :: "ValueObject \<Rightarrow> int \<Rightarrow> bool" where
  "isExpired obj now \<longleftrightarrow> expiresAt obj \<noteq> -1 \<and> expiresAt obj \<le> now"

text \<open>
  The opening of almost every operation: look the key up, and erase it when it has expired; the
  result is the live object, if any, and the state after the lazy expiry.
\<close>

definition find_live :: "int \<Rightarrow> string \<Rightarrow> DataStore \<Rightarrow> ValueObject option \<times> DataStore" where
  "find_live now k s =
     (case find_key k s of
        None \<Rightarrow> (None, s)
      | Some obj \<Rightarrow> if isExpired obj now then (None, erase_key k s) else (Some obj, s))"

text \<open>\<open>it->second.lastAccessedAt = now\<close>.\<close>

definition touch :: "int \<Rightarrow> string \<Rightarrow> ValueObject \<Rightarrow> DataStore \<Rightarrow> DataStore" where
  "touch now k obj s = put_key k (obj\<lparr>lastAccessedAt := now\<rparr>) s"

definition iteration :: "env \<Rightarrow> keyspace \<Rightarrow> keyspace" where
  "iteration e m = sort_key (\<lambda>kv. rank e (fst kv)) m"

section \<open>Memory estimate and limits\<close>

definition estimateObjectBytes :: "env \<Rightarrow> string \<Rightarrow> ValueObject \<Rightarrow> nat" where
  "estimateObjectBytes e k obj =
     length k + length (vo_type obj) + length (vo_value obj) + sizeofValueObject e
     + sum_list (map (\<lambda>x. length x + sizeofString e) (vo_list obj))
     + sum_list (map (\<lambda>(f, x). length f + length x + sizeofString e * 2) (vo_hash obj))
     + sum_list (map (\<lambda>x. length x + sizeofString e) (vo_set obj))"

text \<open>The summing loop of \<open>overEvictionLimitLocked\<close>, with its early exit.\<close>

fun exceedsMemory :: "env \<Rightarrow> nat \<Rightarrow> nat \<Rightarrow> keyspace \<Rightarrow> bool" where
  "exceedsMemory e limit estimated [] = False"
| "exceedsMemory e limit estimated ((k, obj) # rest) =
     (let estimated' = estimated + estimateObjectBytes e k obj
      in if estimated' > limit then True else exceedsMemory e limit estimated' rest)"

definition overEvictionLimit :: "env \<Rightarrow> DataStore \<Rightarrow> bool" where
  "overEvictionLimit e s =
     (let cfg = evictionConfig s in
      if maxKeys cfg > 0 \<and> length (store_values s) > maxKeys cfg then True
      else if maxMemoryBytes cfg = 0 then False
      else exceedsMemory e (maxMemoryBytes cfg) 0 (iteration e (store_values s)))"

section \<open>Eviction\<close>

definition lastAccess :: "ValueObject \<Rightarrow> int" where
  "lastAccess obj = (if lastAccessedAt obj = -1 then createdAt obj else lastAccessedAt obj)"

text \<open>
  The scanning loops of \<open>evictOneLocked\<close>: \<open>candidate\<close> gives the number an object
  competes with (\<open>None\<close> when the loop skips it), and a strictly smaller number than the
  best so far, which starts at the largest \<open>long long\<close>, becomes the victim.
\<close>

fun scanVictim :: "(ValueObject \<Rightarrow> int option) \<Rightarrow> int \<Rightarrow> string option \<Rightarrow> keyspace \<Rightarrow> string option" where
  "scanVictim candidate best victim [] = victim"
| "scanVictim candidate best victim ((k, obj) # rest) =
     (case candidate obj of
        None \<Rightarrow> scanVictim candidate best victim rest
      | Some c \<Rightarrow>
          if c < best then scanVictim candidate c (Some k) rest
          else scanVictim candidate best victim rest)"

definition ttlCandidate :: "ValueObject \<Rightarrow> int option" where
  "ttlCandidate obj = (if expiresAt obj \<noteq> -1 then Some (expiresAt obj) else None)"

definition lruCandidate :: "EvictionPolicy \<Rightarrow> ValueObject \<Rightarrow> int option" where
  "lruCandidate pol obj =
     (if pol = VolatileLru \<and> expiresAt obj = -1 then None else Some (lastAccess obj))"

definition selectVictim :: "env \<Rightarrow> DataStore \<Rightarrow> string option" where
  "selectVictim e s =
     (let order = iteration e (store_values s); pol = policy (evictionConfig s) in
      case pol of
        RandomPolicy \<Rightarrow> Some (fst (order ! (draw e (evictedKeys s) mod length order)))
      | TtlPriority \<Rightarrow> scanVictim ttlCandidate llong_max None order
      | _ \<Rightarrow> scanVictim (lruCandidate pol) llong_max None order)"

definition evictOne :: "env \<Rightarrow> DataStore \<Rightarrow> bool \<times> DataStore" where
  "evictOne e s =
     (if store_values s = [] \<or> policy (evictionConfig s) = PolicyNone then (False, s)
      else (case selectVictim e s of
              None \<Rightarrow> (False, s)
            | Some k \<Rightarrow> (True, (erase_key k s)\<lparr>evictedKeys := evictedKeys s + 1\<rparr>)))"

lemma set_iteration [simp]: "set (iteration e m) = set m"
  by (simp add: iteration_def)

lemma length_iteration [simp]: "length (iteration e m) = length m"
  by (simp add: iteration_def)

lemma iteration_eq_Nil [simp]: "iteration e m = [] \<longleftrightarrow> m = []"
  by (simp flip: length_0_conv)

lemma scanVictim_in:
  "scanVictim cand best victim m = Some k \<Longrightarrow> victim = Some k \<or> k \<in> fst ` set m"
  by (induction cand best victim m rule: scanVictim.induct)
    (auto split: option.splits if_splits)

lemma selectVictim_in:
  assumes "selectVictim e s = Some k" "store_values s \<noteq> []"
  shows "k \<in> fst ` set (store_values s)"
proof (cases "policy (evictionConfig s)")
  case RandomPolicy
  let ?o = "iteration e (store_values s)"
  have "draw e (evictedKeys s) mod length ?o < length ?o" using assms(2) by simp
  then have "?o ! (draw e (evictedKeys s) mod length ?o) \<in> set ?o" by (rule nth_mem)
  then show ?thesis using assms RandomPolicy by (auto simp: selectVictim_def Let_def simp del: length_iteration)
qed (use assms scanVictim_in in \<open>force simp: selectVictim_def\<close>)+

lemma length_delete_less: "k \<in> fst ` set m \<Longrightarrow> length (AList.delete k m) < length m"
  unfolding AList.delete_eq by (auto intro!: length_filter_less)

lemma evictOne_decreases:
  "evictOne e s = (True, s') \<Longrightarrow> length (store_values s') < length (store_values s)"
  by (auto simp: evictOne_def erase_key_def split: if_splits option.splits
      intro!: length_delete_less selectVictim_in)

function evictIfNeeded :: "env \<Rightarrow> DataStore \<Rightarrow> DataStore" where
  "evictIfNeeded e s =
     (if overEvictionLimit e s
      then (case evictOne e s of (True, s') \<Rightarrow> evictIfNeeded e s' | (False, s') \<Rightarrow> s')
      else s)"
  by pat_completeness auto
termination
  by (relation "measure (\<lambda>(e, s). length (store_values s))") (auto dest: evictOne_decreases [OF sym])

declare evictIfNeeded.simps [simp del]

definition configureEviction :: "env \<Rightarrow> EvictionConfig \<Rightarrow> DataStore \<Rightarrow> DataStore" where
  "configureEviction e cfg s = evictIfNeeded e (s\<lparr>evictionConfig := cfg\<rparr>)"

section \<open>Well-formed stores\<close>

text \<open>
  An object carries the payload of its type only, the fields of a hash and the members of a set
  are distinct, and its time stamps are 64-bit numbers. A store is well formed when its keys are
  distinct and its objects are well formed.
\<close>

definition wf_payload :: "ValueObject \<Rightarrow> bool" where
  "wf_payload obj \<longleftrightarrow>
     (vo_type obj = type_String \<and> vo_list obj = [] \<and> vo_hash obj = [] \<and> vo_set obj = []) \<or>
     (vo_type obj = type_List \<and> vo_value obj = [] \<and> vo_hash obj = [] \<and> vo_set obj = []) \<or>
     (vo_type obj = type_Hash \<and> vo_value obj = [] \<and> vo_list obj = [] \<and> vo_set obj = []
        \<and> distinct_keys (vo_hash obj)) \<or>
     (vo_type obj = type_Set \<and> vo_value obj = [] \<and> vo_list obj = [] \<and> vo_hash obj = []
        \<and> distinct (vo_set obj))"

definition wf_times :: "ValueObject \<Rightarrow> bool" where
  "wf_times obj \<longleftrightarrow>
     in_llong (createdAt obj) \<and> in_llong (expiresAt obj) \<and> in_llong (lastAccessedAt obj)"

definition wf_obj :: "ValueObject \<Rightarrow> bool" where
  "wf_obj obj \<longleftrightarrow> wf_payload obj \<and> wf_times obj"

definition wf_store :: "DataStore \<Rightarrow> bool" where
  "wf_store s \<longleftrightarrow>
     distinct_keys (store_values s) \<and> (\<forall>(k, obj)\<in>set (store_values s). wf_obj obj)"

text \<open>The clock returns a \<open>long long\<close>.\<close>

definition clock_ok :: "env \<Rightarrow> bool" where
  "clock_ok e \<longleftrightarrow> (\<forall>n. in_llong (clock e n))"

lemma clock_okD [simp]: "clock_ok e \<Longrightarrow> in_llong (clock e n)"
  by (simp add: clock_ok_def)

lemma in_llong_minus1 [simp]: "in_llong (-1)"
  by (simp add: in_llong_def llong_min_def llong_max_def)

lemma wf_store_empty [simp]: "wf_store empty_store"
  by (simp add: wf_store_def empty_store_def)

lemma find_key_put [simp]:
  "find_key k' (put_key k obj s) = (if k' = k then Some obj else find_key k' s)"
  by (simp add: find_key_def put_key_def amap.find_insert)

lemma find_key_erase [simp]:
  "find_key k' (erase_key k s) = (if k' = k then None else find_key k' s)"
  by (simp add: find_key_def erase_key_def amap.find_erase)

lemma config_put_erase [simp]:
  "evictionConfig (put_key k obj s) = evictionConfig s"
  "evictionConfig (erase_key k s) = evictionConfig s"
  "evictedKeys (put_key k obj s) = evictedKeys s"
  "evictedKeys (erase_key k s) = evictedKeys s"
  "expiredKeys (put_key k obj s) = expiredKeys s"
  "expiredKeys (erase_key k s) = expiredKeys s"
  by (simp_all add: put_key_def erase_key_def)

lemma find_key_update_counters [simp]:
  "find_key k (s\<lparr>evictedKeys := n\<rparr>) = find_key k s"
  "find_key k (s\<lparr>expiredKeys := n\<rparr>) = find_key k s"
  "find_key k (s\<lparr>evictionConfig := c\<rparr>) = find_key k s"
  by (simp_all add: find_key_def)

lemma wf_update_counters [simp]:
  "wf_store (s\<lparr>evictedKeys := n\<rparr>) = wf_store s"
  "wf_store (s\<lparr>expiredKeys := n\<rparr>) = wf_store s"
  "wf_store (s\<lparr>evictionConfig := c\<rparr>) = wf_store s"
  by (simp_all add: wf_store_def)

lemma wf_store_alt:
  "wf_store s \<longleftrightarrow>
     distinct_keys (store_values s) \<and> (\<forall>k obj. find_key k s = Some obj \<longrightarrow> wf_obj obj)"
  by (fastforce simp: wf_store_def find_key_def dest: map_of_SomeD)

lemma wf_distinct: "wf_store s \<Longrightarrow> distinct_keys (store_values s)"
  by (simp add: wf_store_def)

lemma wf_find: "wf_store s \<Longrightarrow> find_key k s = Some obj \<Longrightarrow> wf_obj obj"
  by (simp add: wf_store_alt)

lemma wf_put [wf_intros]: "wf_store s \<Longrightarrow> wf_obj obj \<Longrightarrow> wf_store (put_key k obj s)"
  by (simp add: wf_store_alt) (simp add: put_key_def amap.invar_insert)

lemma wf_erase [wf_intros]: "wf_store s \<Longrightarrow> wf_store (erase_key k s)"
  by (simp add: wf_store_alt) (simp add: erase_key_def amap.invar_erase)

lemma wf_obj_accessed [simp]: "wf_obj obj \<Longrightarrow> in_llong now \<Longrightarrow> wf_obj (obj\<lparr>lastAccessedAt := now\<rparr>)"
  by (simp add: wf_obj_def wf_payload_def wf_times_def)

lemma wf_touch [wf_intros]:
  "wf_store s \<Longrightarrow> wf_obj obj \<Longrightarrow> in_llong now \<Longrightarrow> wf_store (touch now k obj s)"
  by (simp add: touch_def wf_put)

section \<open>Lazy expiry\<close>

lemma find_live_Some:
  "find_live now k s = (Some obj, s') \<longleftrightarrow>
     find_key k s = Some obj \<and> \<not> isExpired obj now \<and> s' = s"
  by (auto simp: find_live_def split: option.splits if_splits)

lemma find_live_None:
  "find_live now k s = (None, s') \<longleftrightarrow>
     (find_key k s = None \<and> s' = s) \<or>
     (\<exists>obj. find_key k s = Some obj \<and> isExpired obj now \<and> s' = erase_key k s)"
  by (auto simp: find_live_def split: option.splits if_splits)

lemma find_live_wf_cases:
  assumes "wf_store s"
  obtains (gone) s' where "find_live now k s = (None, s')" "wf_store s'"
      "evictionConfig s' = evictionConfig s"
    | (live) obj where "find_live now k s = (Some obj, s)" "wf_obj obj"
      "find_key k s = Some obj" "\<not> isExpired obj now"
proof (cases "fst (find_live now k s)")
  case None
  then obtain s' where s': "find_live now k s = (None, s')" by (cases "find_live now k s") auto
  then have "wf_store s'" "evictionConfig s' = evictionConfig s"
    using assms by (auto simp: find_live_None wf_erase)
  with s' show ?thesis by (rule gone)
next
  case (Some obj)
  then have "find_live now k s = (Some obj, s)" "find_key k s = Some obj" "\<not> isExpired obj now"
    by (auto simp: find_live_def split: option.splits if_splits)
  then show ?thesis using assms wf_find by (auto intro!: live)
qed

lemma isExpired_accessed [simp]: "isExpired (obj\<lparr>lastAccessedAt := t\<rparr>) now = isExpired obj now"
  by (simp add: isExpired_def)

end
