(* ===== verification/StoreEviction.thy ===== *)
theory StoreEviction
  imports StoreCore
begin

text \<open>
  What the eviction loop of \<open>DataStore\<close> guarantees: it only removes keys, counts each one, stops
  exactly when the limits hold or no victim is left, and picks victims in the order its policy
  promises. The three scanning policies share one contract, stated as a locale.
\<close>

section \<open>The memory estimate loop\<close>

definition estimatedBytes :: "env \<Rightarrow> keyspace \<Rightarrow> nat" where
  "estimatedBytes e m = sum_list (map (\<lambda>(k, obj). estimateObjectBytes e k obj) m)"

lemma exceedsMemory_iff:
  "n \<le> limit \<Longrightarrow> exceedsMemory e limit n m \<longleftrightarrow> limit < n + estimatedBytes e m"
  by (induction e limit n m rule: exceedsMemory.induct)
    (auto simp: estimatedBytes_def Let_def add.assoc)

lemma estimatedBytes_iteration: "estimatedBytes e (iteration e' m) = estimatedBytes e m"
  by (simp add: estimatedBytes_def iteration_def flip: sum_mset_sum_list)

lemma overEvictionLimit_iff:
  "overEvictionLimit e s \<longleftrightarrow>
     (0 < maxKeys (evictionConfig s) \<and> maxKeys (evictionConfig s) < length (store_values s)) \<or>
     (0 < maxMemoryBytes (evictionConfig s) \<and>
        maxMemoryBytes (evictionConfig s) < estimatedBytes e (store_values s))"
  by (auto simp: overEvictionLimit_def Let_def exceedsMemory_iff estimatedBytes_iteration)

lemma overEvictionLimit_empty: "store_values s = [] \<Longrightarrow> \<not> overEvictionLimit e s"
  by (simp add: overEvictionLimit_iff estimatedBytes_def)

section \<open>Invariants of the loop\<close>

abbreviation evicted :: "string \<Rightarrow> DataStore \<Rightarrow> DataStore" where
  "evicted k s \<equiv> (erase_key k s)\<lparr>evictedKeys := evictedKeys s + 1\<rparr>"

lemma evictOne_True_iff:
  "evictOne e s = (True, s') \<longleftrightarrow>
     store_values s \<noteq> [] \<and> policy (evictionConfig s) \<noteq> PolicyNone \<and>
     (\<exists>k. selectVictim e s = Some k \<and> s' = evicted k s)"
  by (auto simp: evictOne_def split: option.splits)

lemma evictOne_False: "evictOne e s = (False, s') \<Longrightarrow> s' = s"
  by (auto simp: evictOne_def split: if_splits option.splits)

lemma evictIfNeeded_step:
  "overEvictionLimit e s \<Longrightarrow> evictOne e s = (True, s') \<Longrightarrow> evictIfNeeded e s = evictIfNeeded e s'"
  by (subst evictIfNeeded.simps) simp

lemma evictIfNeeded_stop:
  "\<not> overEvictionLimit e s \<or> evictOne e s = (False, s') \<Longrightarrow> evictIfNeeded e s = s"
  by (subst evictIfNeeded.simps) (auto dest: evictOne_False)

text \<open>Induction over the rounds of the loop: every round erases one victim that is present.\<close>

lemma evictIfNeeded_rounds [consumes 1, case_names round]:
  assumes "P s"
    and "\<And>s k. P s \<Longrightarrow> overEvictionLimit e s \<Longrightarrow> selectVictim e s = Some k \<Longrightarrow>
           k \<in> fst ` set (store_values s) \<Longrightarrow> policy (evictionConfig s) \<noteq> PolicyNone \<Longrightarrow> P (evicted k s)"
  shows "P (evictIfNeeded e s)"
  using assms(1)
proof (induction "length (store_values s)" arbitrary: s rule: less_induct)
  case (less s)
  show ?case
  proof (cases "overEvictionLimit e s \<and> fst (evictOne e s)")
    case True
    then obtain s' where s': "evictOne e s = (True, s')" by (cases "evictOne e s") auto
    then obtain k where k: "selectVictim e s = Some k" "s' = evicted k s" "store_values s \<noteq> []"
        "policy (evictionConfig s) \<noteq> PolicyNone"
      by (auto simp: evictOne_True_iff)
    then have "P s'"
      using assms(2) [OF less.prems] True selectVictim_in by blast
    moreover have "evictIfNeeded e s = evictIfNeeded e s'"
      using True s' by (simp add: evictIfNeeded_step)
    ultimately show ?thesis using less.hyps [OF evictOne_decreases [OF s']] by simp
  next
    case False
    then have "evictIfNeeded e s = s"
      using evictIfNeeded_stop [of e s "snd (evictOne e s)"] by (cases "evictOne e s") auto
    then show ?thesis using less.prems by simp
  qed
qed

lemma evictIfNeeded_config [simp]:
  "evictionConfig (evictIfNeeded e s) = evictionConfig s"
  "expiredKeys (evictIfNeeded e s) = expiredKeys s"
  by (rule evictIfNeeded_rounds [of "\<lambda>t. evictionConfig t = evictionConfig s"]; simp)
    (rule evictIfNeeded_rounds [of "\<lambda>t. expiredKeys t = expiredKeys s"]; simp)

lemma wf_evictIfNeeded [wf_intros]: "wf_store s \<Longrightarrow> wf_store (evictIfNeeded e s)"
  by (induction rule: evictIfNeeded_rounds) (simp_all add: wf_erase)

text \<open>Eviction never invents or changes an entry.\<close>

lemma evictIfNeeded_sub: "find_key k (evictIfNeeded e s) = Some obj \<Longrightarrow> find_key k s = Some obj"
proof -
  have "\<forall>k obj. find_key k (evictIfNeeded e s) = Some obj \<longrightarrow> find_key k s = Some obj"
    by (rule evictIfNeeded_rounds) (auto split: if_splits)
  then show "find_key k (evictIfNeeded e s) = Some obj \<Longrightarrow> find_key k s = Some obj" by blast
qed

text \<open>The counter of evicted keys accounts for every key that is gone.\<close>

lemma evictIfNeeded_count:
  assumes "wf_store s"
  shows "evictedKeys (evictIfNeeded e s) + length (store_values (evictIfNeeded e s))
           = evictedKeys s + length (store_values s)"
proof -
  have "wf_store (evictIfNeeded e s) \<and>
      evictedKeys (evictIfNeeded e s) + length (store_values (evictIfNeeded e s))
        = evictedKeys s + length (store_values s)"
  proof (rule evictIfNeeded_rounds)
    fix t k
    assume t: "wf_store t \<and> evictedKeys t + length (store_values t) = evictedKeys s + length (store_values s)"
      and k: "k \<in> fst ` set (store_values t)"
    then have d: "distinct_keys (store_values t)" and "map_of (store_values t) k \<noteq> None"
      by (auto simp: wf_distinct map_of_eq_None_iff)
    then have "length (AList.delete k (store_values t)) = length (store_values t) - 1"
      by (metis amap.size_erase)
    moreover have "0 < length (store_values t)" using k by (cases "store_values t") auto
    ultimately have "Suc (length (store_values (erase_key k t))) = length (store_values t)"
      by (simp add: erase_key_def)
    then show "wf_store (evicted k t) \<and>
        evictedKeys (evicted k t) + length (store_values (evicted k t)) = evictedKeys s + length (store_values s)"
      using t by (simp add: wf_erase)
  qed (use assms in simp)
  then show ?thesis by blast
qed

text \<open>The loop stops because the limits hold or because there is no victim.\<close>

lemma evictIfNeeded_stopped:
  "overEvictionLimit e (evictIfNeeded e s) \<Longrightarrow> \<not> fst (evictOne e (evictIfNeeded e s))"
proof (induction e s rule: evictIfNeeded.induct)
  case (1 e s)
  show ?case
  proof (cases "overEvictionLimit e s \<and> fst (evictOne e s)")
    case True
    then obtain s' where "evictOne e s = (True, s')" by (cases "evictOne e s") auto
    with True "1" show ?thesis by (simp add: evictIfNeeded_step)
  next
    case False
    then have "evictIfNeeded e s = s"
      using evictIfNeeded_stop [of e s "snd (evictOne e s)"] by (cases "evictOne e s") auto
    with False "1.prems" show ?thesis by simp
  qed
qed

text \<open>With no limit set, or with the policy \<open>none\<close>, the loop does nothing.\<close>

definition eviction_off :: "DataStore \<Rightarrow> bool" where
  "eviction_off s \<longleftrightarrow> policy (evictionConfig s) = PolicyNone
     \<or> (maxKeys (evictionConfig s) = 0 \<and> maxMemoryBytes (evictionConfig s) = 0)"

lemma evictIfNeeded_off [simp]: "eviction_off s \<Longrightarrow> evictIfNeeded e s = s"
  by (subst evictIfNeeded.simps) (auto simp: eviction_off_def overEvictionLimit_iff evictOne_def)

lemma eviction_off_put_erase [simp]:
  "eviction_off (put_key k obj s) = eviction_off s"
  "eviction_off (erase_key k s) = eviction_off s"
  "eviction_off (evictIfNeeded e s) = eviction_off s"
  by (simp_all add: eviction_off_def)

section \<open>The order of the scanning policies\<close>

definition none_below :: "(ValueObject \<Rightarrow> int option) \<Rightarrow> int \<Rightarrow> keyspace \<Rightarrow> bool" where
  "none_below cand b m \<longleftrightarrow> (\<forall>(k, obj)\<in>set m. \<forall>c. cand obj = Some c \<longrightarrow> b \<le> c)"

lemma none_below_Cons:
  "none_below cand b ((k, obj) # m) \<longleftrightarrow> (\<forall>c. cand obj = Some c \<longrightarrow> b \<le> c) \<and> none_below cand b m"
  by (simp add: none_below_def)

lemma none_below_mono: "none_below cand b m \<Longrightarrow> a \<le> b \<Longrightarrow> none_below cand a m"
  by (fastforce simp: none_below_def)

lemma scanVictim_Some:
  assumes "scanVictim cand best victim m = Some k"
  shows "(victim = Some k \<and> none_below cand best m) \<or>
    (\<exists>obj c. (k, obj) \<in> set m \<and> cand obj = Some c \<and> c < best \<and> none_below cand c m)"
  using assms
proof (induction m arbitrary: best victim)
  case Nil
  then show ?case by (simp add: none_below_def)
next
  case (Cons a m)
  obtain k' obj' where a: "a = (k', obj')" by (cases a)
  show ?case
  proof (cases "\<exists>c. cand obj' = Some c \<and> c < best")
    case True
    then obtain c where c: "cand obj' = Some c" "c < best" by blast
    then have "scanVictim cand c (Some k') m = Some k" using Cons.prems a by simp
    from Cons.IH [OF this] c a show ?thesis
      by (auto simp: none_below_Cons dest: less_trans)
  next
    case False
    then have "scanVictim cand best victim m = Some k"
      using Cons.prems a by (auto split: option.splits if_splits)
    from Cons.IH [OF this] False a show ?thesis
      by (fastforce simp: none_below_Cons)
  qed
qed

lemma scanVictim_keeps: "scanVictim cand b (Some v) m \<noteq> None"
  by (induction m arbitrary: b v) (auto split: option.splits)

lemma scanVictim_None:
  "scanVictim cand best None m = None \<Longrightarrow> none_below cand best m"
proof (induction m)
  case (Cons a m)
  then show ?case
    using scanVictim_keeps [of cand _ _ m]
    by (cases a) (auto simp: none_below_Cons simp del: not_None_eq split: option.splits if_splits)
qed (simp add: none_below_def)

text \<open>
  The contract of a policy that scans for the smallest candidate. Keys that do not compete are
  never evicted; every evicted key competed at least as low as every survivor; and the loop ends
  within the limits unless no competing key is left.
\<close>

locale scan_policy =
  fixes pol :: EvictionPolicy
    and cand :: "ValueObject \<Rightarrow> int option"
  assumes selects: "policy (evictionConfig s) = pol \<Longrightarrow>
      selectVictim e s = scanVictim cand llong_max None (iteration e (store_values s))"
    and scans: "pol \<noteq> PolicyNone"
begin

lemma victim_lowest:
  assumes "policy (evictionConfig s) = pol" "wf_store s" "selectVictim e s = Some k"
  shows "\<exists>obj c. find_key k s = Some obj \<and> cand obj = Some c \<and>
    (\<forall>k' obj' c'. find_key k' s = Some obj' \<longrightarrow> cand obj' = Some c' \<longrightarrow> c \<le> c')"
proof -
  have "scanVictim cand llong_max None (iteration e (store_values s)) = Some k"
    using assms selects by simp
  then obtain obj c where oc: "(k, obj) \<in> set (store_values s)" "cand obj = Some c"
      "none_below cand c (store_values s)"
    using scanVictim_Some [of cand llong_max None "iteration e (store_values s)" k]
    by (auto simp: none_below_def)
  have "find_key k s = Some obj"
    using oc(1) assms(2) by (simp add: find_key_def wf_distinct)
  moreover have "c \<le> c'" if "find_key k' s = Some obj'" "cand obj' = Some c'" for k' obj' c'
    using oc(3) that unfolding none_below_def find_key_def by (blast dest: map_of_SomeD)
  ultimately show ?thesis using oc(2) by blast
qed

lemma not_competing_survives:
  assumes "policy (evictionConfig s) = pol" "wf_store s" "find_key k s = Some obj" "cand obj = None"
  shows "find_key k (evictIfNeeded e s) = Some obj"
proof -
  have "policy (evictionConfig (evictIfNeeded e s)) = pol \<and> wf_store (evictIfNeeded e s)
      \<and> find_key k (evictIfNeeded e s) = Some obj"
  proof (rule evictIfNeeded_rounds)
    fix t v
    assume t: "policy (evictionConfig t) = pol \<and> wf_store t \<and> find_key k t = Some obj"
      and v: "selectVictim e t = Some v"
    then obtain obj' c where "find_key v t = Some obj'" "cand obj' = Some c"
      using victim_lowest [of t e v] by blast
    with t assms(4) have "v \<noteq> k" by auto
    with t show "policy (evictionConfig (evicted v t)) = pol \<and> wf_store (evicted v t)
        \<and> find_key k (evicted v t) = Some obj"
      by (simp add: wf_erase)
  qed (use assms in simp)
  then show ?thesis by blast
qed

lemma evicted_before_survivors:
  assumes "policy (evictionConfig s) = pol" "wf_store s"
    and "find_key k s = Some obj" "find_key k (evictIfNeeded e s) = None"
    and "find_key k' (evictIfNeeded e s) = Some obj'" "cand obj' = Some c'"
  shows "\<exists>c. cand obj = Some c \<and> c \<le> c'"
proof -
  let ?low = "\<lambda>t. \<forall>k obj. find_key k s = Some obj \<longrightarrow> find_key k t = None \<longrightarrow>
      (\<forall>k' obj' c'. find_key k' t = Some obj' \<longrightarrow> cand obj' = Some c' \<longrightarrow>
         (\<exists>c. cand obj = Some c \<and> c \<le> c'))"
  let ?sub = "\<lambda>t. \<forall>k obj. find_key k t = Some obj \<longrightarrow> find_key k s = Some obj"
  let ?P = "\<lambda>t. policy (evictionConfig t) = pol \<and> wf_store t \<and> ?sub t \<and> ?low t"
  have "?P (evictIfNeeded e s)"
  proof (rule evictIfNeeded_rounds)
    fix t v
    assume t: "?P t" and v: "selectVictim e t = Some v"
    then obtain vo c where vo: "find_key v t = Some vo" "cand vo = Some c"
        "\<forall>k' obj' c'. find_key k' t = Some obj' \<longrightarrow> cand obj' = Some c' \<longrightarrow> c \<le> c'"
      using victim_lowest [of t e v] by blast
    have "?low (evicted v t)"
    proof (intro allI impI)
      fix k obj k' obj' c'
      assume gone: "find_key k s = Some obj" "find_key k (evicted v t) = None"
        and stays: "find_key k' (evicted v t) = Some obj'" "cand obj' = Some c'"
      have k't: "find_key k' t = Some obj'" using stays by (auto split: if_splits)
      show "\<exists>c. cand obj = Some c \<and> c \<le> c'"
      proof (cases "k = v")
        case True
        then have "obj = vo" using t vo(1) gone(1) by auto
        then show ?thesis using vo k't stays by blast
      next
        case False
        then show ?thesis using t gone stays k't by (auto split: if_splits)
      qed
    qed
    with t show "?P (evicted v t)" by (simp add: wf_erase)
  qed (use assms in auto)
  then show ?thesis using assms by blast
qed

lemma limit_or_no_candidate:
  assumes "policy (evictionConfig s) = pol" "wf_store s"
    and "find_key k (evictIfNeeded e s) = Some obj" "cand obj = Some c" "c < llong_max"
  shows "\<not> overEvictionLimit e (evictIfNeeded e s)"
proof
  let ?t = "evictIfNeeded e s"
  assume "overEvictionLimit e ?t"
  then have "\<not> fst (evictOne e ?t)" by (rule evictIfNeeded_stopped)
  moreover have "store_values ?t \<noteq> []" using assms(3) by (auto simp: find_key_def)
  ultimately have "selectVictim e ?t = None"
    using assms(1) scans by (auto simp: evictOne_def split: option.splits)
  then have "scanVictim cand llong_max None (iteration e (store_values ?t)) = None"
    using assms(1) selects by simp
  moreover have "(k, obj) \<in> set (store_values ?t)"
    using assms(3) by (auto simp: find_key_def dest: map_of_SomeD)
  ultimately have "llong_max \<le> c"
    using assms(4) scanVictim_None [of cand llong_max "iteration e (store_values ?t)"]
    by (auto simp: none_below_def)
  with assms(5) show False by simp
qed

end

interpretation lru: scan_policy AllKeysLru "\<lambda>obj. Some (lastAccess obj)"
  by unfold_locales (simp_all add: selectVictim_def Let_def lruCandidate_def [abs_def])

interpretation vlru: scan_policy VolatileLru "lruCandidate VolatileLru"
  by unfold_locales (simp_all add: selectVictim_def Let_def)

interpretation ttlp: scan_policy TtlPriority ttlCandidate
  by unfold_locales (simp_all add: selectVictim_def Let_def)

text \<open>With \<open>allkeys-lru\<close> or \<open>random\<close> there is always a victim, so the limits hold afterwards.\<close>

lemma evictIfNeeded_within_limit:
  assumes "wf_store s"
    and "policy (evictionConfig s) = AllKeysLru \<and> (\<forall>k obj. find_key k s = Some obj \<longrightarrow> lastAccess obj < llong_max)
       \<or> policy (evictionConfig s) = RandomPolicy"
  shows "\<not> overEvictionLimit e (evictIfNeeded e s)"
proof (cases "store_values (evictIfNeeded e s) = []")
  case True
  then show ?thesis by (rule overEvictionLimit_empty)
next
  case False
  then obtain k obj where "(k, obj) \<in> set (store_values (evictIfNeeded e s))"
    by (cases "store_values (evictIfNeeded e s)") auto
  then have ko: "find_key k (evictIfNeeded e s) = Some obj"
    using wf_evictIfNeeded [OF assms(1)] by (simp add: find_key_def wf_distinct)
  from assms(2) show ?thesis
  proof
    assume "policy (evictionConfig s) = AllKeysLru
      \<and> (\<forall>k obj. find_key k s = Some obj \<longrightarrow> lastAccess obj < llong_max)"
    then show ?thesis
      using lru.limit_or_no_candidate [OF _ assms(1) ko refl] evictIfNeeded_sub [OF ko] by blast
  next
    assume rnd: "policy (evictionConfig s) = RandomPolicy"
    show ?thesis
    proof
      assume "overEvictionLimit e (evictIfNeeded e s)"
      then have "\<not> fst (evictOne e (evictIfNeeded e s))" by (rule evictIfNeeded_stopped)
      with rnd False show False by (auto simp: evictOne_def selectVictim_def Let_def)
    qed
  qed
qed

section \<open>Properties\<close>

text \<open>Two keys, the older without and the newer with a deadline, in a store that may hold one.\<close>

definition two_keys :: "EvictionPolicy \<Rightarrow> DataStore" where
  "two_keys pol =
     \<lparr>store_values =
        [(''a'', \<lparr>vo_value = ''1'', vo_list = [], vo_hash = [], vo_set = [], vo_type = type_String,
           createdAt = 1, expiresAt = -1, lastAccessedAt = 1\<rparr>),
         (''b'', \<lparr>vo_value = ''2'', vo_list = [], vo_hash = [], vo_set = [], vo_type = type_String,
           createdAt = 2, expiresAt = 5000, lastAccessedAt = 2\<rparr>)],
      evictionConfig = \<lparr>maxKeys = 1, maxMemoryBytes = 0, policy = pol\<rparr>, evictedKeys = 0, expiredKeys = 0\<rparr>"

lemma wf_two_keys: "wf_store (two_keys pol)"
  by (simp add: two_keys_def wf_store_def wf_obj_def wf_payload_def wf_times_def in_llong_def llong_min_def llong_max_def)







end
