(* ===== verification/StoreStrings.thy ===== *)
theory StoreStrings
  imports StoreEviction
begin

text \<open>
  The string and time-to-live operations of \<open>DataStore\<close>. An operation returns its result and
  the new state; an operation that can leave defined behaviour returns an \<open>outcome\<close>: a signed
  overflow of a time stamp or of a counter, or the use of an iterator after the eviction loop
  erased its element. Theorems about their effect on what clients see are in \<open>StoreSpec\<close>.
\<close>

definition string_object :: "string \<Rightarrow> int \<Rightarrow> int \<Rightarrow> int \<Rightarrow> ValueObject" where
  "string_object v created expires accessed =
     \<lparr>vo_value = v, vo_list = [], vo_hash = [], vo_set = [], vo_type = type_String,
      createdAt = created, expiresAt = expires, lastAccessedAt = accessed\<rparr>"

text \<open>\<open>now + (ttlSeconds * 1000)\<close> in 64-bit arithmetic.\<close>

definition deadline_after :: "int \<Rightarrow> int \<Rightarrow> int outcome" where
  "deadline_after now ttlSeconds = and_then (checked (ttlSeconds * 1000)) (\<lambda>ms. checked (now + ms))"

definition ds_set :: "env \<Rightarrow> string \<Rightarrow> string \<Rightarrow> int \<Rightarrow> DataStore \<Rightarrow> DataStore outcome" where
  "ds_set e k v ttlSeconds s =
     (let created = clock e 0 in
      and_then (if ttlSeconds \<ge> 0 then deadline_after created ttlSeconds else Inr (-1))
        (\<lambda>expires. Inr (evictIfNeeded e (put_key k (string_object v created expires created) s))))"

definition ds_get :: "env \<Rightarrow> string \<Rightarrow> DataStore \<Rightarrow> string option \<times> DataStore" where
  "ds_get e k s =
     (case find_live (clock e 0) k s of
        (None, s') \<Rightarrow> (None, s')
      | (Some obj, s') \<Rightarrow>
          if vo_type obj \<noteq> type_String then (None, s')
          else (Some (vo_value obj), touch (clock e 1) k obj s'))"

definition ds_del :: "string \<Rightarrow> DataStore \<Rightarrow> bool \<times> DataStore" where
  "ds_del k s = (find_key k s \<noteq> None, erase_key k s)"

definition ds_exists :: "env \<Rightarrow> string \<Rightarrow> DataStore \<Rightarrow> bool \<times> DataStore" where
  "ds_exists e k s =
     (case find_live (clock e 0) k s of
        (None, s') \<Rightarrow> (False, s')
      | (Some obj, s') \<Rightarrow> (True, touch (clock e 1) k obj s'))"

definition ds_expire :: "env \<Rightarrow> string \<Rightarrow> int \<Rightarrow> DataStore \<Rightarrow> (bool \<times> DataStore) outcome" where
  "ds_expire e k ttlSeconds s =
     (case find_live (clock e 0) k s of
        (None, s') \<Rightarrow> Inr (False, s')
      | (Some obj, s') \<Rightarrow>
          and_then (deadline_after (clock e 0) ttlSeconds)
            (\<lambda>expires. Inr (True, put_key k (obj\<lparr>expiresAt := expires\<rparr>) s')))"

text \<open>
  A live key with a deadline has time left, so the truncating division of C++ and \<open>div\<close> agree.
\<close>

definition ds_ttl :: "env \<Rightarrow> string \<Rightarrow> DataStore \<Rightarrow> (int \<times> DataStore) outcome" where
  "ds_ttl e k s =
     (case find_live (clock e 0) k s of
        (None, s') \<Rightarrow> Inr (-2, s')
      | (Some obj, s') \<Rightarrow>
          if expiresAt obj = -1 then Inr (-1, s')
          else and_then (checked (expiresAt obj - clock e 0)) (\<lambda>remaining.
               and_then (checked (remaining + 999)) (\<lambda>rounded.
                 Inr (rounded div 1000, touch (clock e 0) k obj s'))))"

definition ds_persist :: "env \<Rightarrow> string \<Rightarrow> DataStore \<Rightarrow> bool \<times> DataStore" where
  "ds_persist e k s =
     (case find_live (clock e 0) k s of
        (None, s') \<Rightarrow> (False, s')
      | (Some obj, s') \<Rightarrow>
          if expiresAt obj = -1 then (False, s')
          else (True, evictIfNeeded e
                  (put_key k (obj\<lparr>expiresAt := -1, lastAccessedAt := clock e 1\<rparr>) s')))"

definition ds_incrBy :: "env \<Rightarrow> string \<Rightarrow> int \<Rightarrow> DataStore \<Rightarrow> (int option \<times> DataStore) outcome" where
  "ds_incrBy e k delta s =
     (let now = clock e 0 in
      case find_live now k s of
        (None, s') \<Rightarrow>
          and_then (checked (0 + delta)) (\<lambda>updated.
            Inr (Some updated,
                 evictIfNeeded e (put_key k (string_object (show_int updated) now (-1) now) s')))
      | (Some obj, s') \<Rightarrow>
          if vo_type obj \<noteq> type_String then Inr (None, s')
          else (case parse_ll (vo_value obj) of
                  None \<Rightarrow> Inr (None, s')
                | Some current \<Rightarrow>
                    and_then (checked (current + delta)) (\<lambda>updated.
                      Inr (Some updated,
                           evictIfNeeded e (put_key k
                             (string_object (show_int updated) (createdAt obj) (expiresAt obj) now) s')))))"

text \<open>The size is read through the iterator after the eviction loop ran.\<close>

definition ds_append :: "env \<Rightarrow> string \<Rightarrow> string \<Rightarrow> DataStore \<Rightarrow> (nat option \<times> DataStore) outcome" where
  "ds_append e k suffix s =
     (let now = clock e 0 in
      case find_live now k s of
        (None, s') \<Rightarrow>
          Inr (Some (length suffix), evictIfNeeded e (put_key k (string_object suffix now (-1) now) s'))
      | (Some obj, s') \<Rightarrow>
          if vo_type obj \<noteq> type_String then Inr (None, s')
          else (let s'' = evictIfNeeded e
                  (put_key k (obj\<lparr>vo_value := vo_value obj @ suffix, lastAccessedAt := now\<rparr>) s')
                in case find_key k s'' of
                     None \<Rightarrow> Inl DanglingIterator
                   | Some obj' \<Rightarrow> Inr (Some (length (vo_value obj')), s'')))"

definition ds_strlen :: "env \<Rightarrow> string \<Rightarrow> DataStore \<Rightarrow> nat option \<times> DataStore" where
  "ds_strlen e k s =
     (case find_live (clock e 0) k s of
        (None, s') \<Rightarrow> (None, s')
      | (Some obj, s') \<Rightarrow>
          if vo_type obj \<noteq> type_String then (None, s')
          else (Some (length (vo_value obj)), touch (clock e 1) k obj s'))"

text \<open>One round of the loop of \<open>mget\<close>, all rounds using the same clock reading.\<close>

definition mget_one :: "int \<Rightarrow> string \<Rightarrow> DataStore \<Rightarrow> string option \<times> DataStore" where
  "mget_one now k s =
     (case find_live now k s of
        (None, s') \<Rightarrow> (None, s')
      | (Some obj, s') \<Rightarrow>
          if vo_type obj = type_String then (Some (vo_value obj), touch now k obj s')
          else (None, s'))"

fun mget_loop :: "int \<Rightarrow> string list \<Rightarrow> DataStore \<Rightarrow> string option list \<times> DataStore" where
  "mget_loop now [] s = ([], s)"
| "mget_loop now (k # ks) s =
     (let (v, s') = mget_one now k s; (vs, s'') = mget_loop now ks s' in (v # vs, s''))"

definition ds_mget :: "env \<Rightarrow> string list \<Rightarrow> DataStore \<Rightarrow> string option list \<times> DataStore" where
  "ds_mget e ks s = mget_loop (clock e 0) ks s"

fun mset_loop :: "int \<Rightarrow> (string \<times> string) list \<Rightarrow> DataStore \<Rightarrow> DataStore" where
  "mset_loop now [] s = s"
| "mset_loop now ((k, v) # rest) s = mset_loop now rest (put_key k (string_object v now (-1) now) s)"

definition ds_mset :: "env \<Rightarrow> (string \<times> string) list \<Rightarrow> DataStore \<Rightarrow> DataStore" where
  "ds_mset e entries s = evictIfNeeded e (mset_loop (clock e 0) entries s)"

section \<open>Well-formedness\<close>

lemma wf_string_object [simp]:
  "in_llong c \<Longrightarrow> in_llong x \<Longrightarrow> in_llong a \<Longrightarrow> wf_obj (string_object v c x a)"
  by (simp add: wf_obj_def wf_payload_def wf_times_def string_object_def)

lemma deadline_after_range: "deadline_after now t = Inr d \<Longrightarrow> in_llong d \<and> d = now + t * 1000"
  by (auto simp: deadline_after_def)

lemma wf_obj_expires [simp]: "wf_obj obj \<Longrightarrow> in_llong x \<Longrightarrow> wf_obj (obj\<lparr>expiresAt := x\<rparr>)"
  by (simp add: wf_obj_def wf_payload_def wf_times_def)

lemma wf_obj_append [simp]:
  "wf_obj obj \<Longrightarrow> vo_type obj = type_String \<Longrightarrow> wf_obj (obj\<lparr>vo_value := v\<rparr>)"
  by (simp add: wf_obj_def wf_payload_def wf_times_def)

lemma wf_obj_times: "wf_obj obj \<Longrightarrow> in_llong (createdAt obj) \<and> in_llong (expiresAt obj)"
  by (simp add: wf_obj_def wf_times_def)

lemma wf_ds_set:
  "wf_store s \<Longrightarrow> clock_ok e \<Longrightarrow> ds_set e k v t s = Inr s' \<Longrightarrow> wf_store s'"
  by (auto simp: ds_set_def Let_def wf_intros split: if_splits dest!: deadline_after_range)

lemma wf_ds_get [wf_intros]: "wf_store s \<Longrightarrow> clock_ok e \<Longrightarrow> wf_store (snd (ds_get e k s))"
  by (cases rule: find_live_wf_cases [of s "clock e 0" k]) (simp_all add: ds_get_def wf_intros)

lemma wf_ds_del [wf_intros]: "wf_store s \<Longrightarrow> wf_store (snd (ds_del k s))"
  by (simp add: ds_del_def wf_intros)

lemma wf_ds_exists [wf_intros]: "wf_store s \<Longrightarrow> clock_ok e \<Longrightarrow> wf_store (snd (ds_exists e k s))"
  by (cases rule: find_live_wf_cases [of s "clock e 0" k]) (simp_all add: ds_exists_def wf_intros)

lemma wf_ds_expire: "wf_store s \<Longrightarrow> ds_expire e k t s = Inr (r, s') \<Longrightarrow> wf_store s'"
  by (cases rule: find_live_wf_cases [of s "clock e 0" k])
    (auto simp: ds_expire_def wf_intros dest!: deadline_after_range)

lemma wf_ds_ttl:
  "wf_store s \<Longrightarrow> clock_ok e \<Longrightarrow> ds_ttl e k s = Inr (r, s') \<Longrightarrow> wf_store s'"
  by (cases rule: find_live_wf_cases [of s "clock e 0" k])
    (auto simp: ds_ttl_def wf_intros split: if_splits)

lemma wf_ds_persist [wf_intros]: "wf_store s \<Longrightarrow> clock_ok e \<Longrightarrow> wf_store (snd (ds_persist e k s))"
  by (cases rule: find_live_wf_cases [of s "clock e 0" k]) (simp_all add: ds_persist_def wf_intros)

lemma wf_ds_incrBy:
  "wf_store s \<Longrightarrow> clock_ok e \<Longrightarrow> ds_incrBy e k d s = Inr (r, s') \<Longrightarrow> wf_store s'"
  by (cases rule: find_live_wf_cases [of s "clock e 0" k])
    (auto simp: ds_incrBy_def Let_def wf_intros wf_obj_times split: if_splits option.splits)

lemma wf_ds_append:
  "wf_store s \<Longrightarrow> clock_ok e \<Longrightarrow> ds_append e k x s = Inr (r, s') \<Longrightarrow> wf_store s'"
  by (cases rule: find_live_wf_cases [of s "clock e 0" k])
    (auto simp: ds_append_def Let_def wf_intros split: if_splits option.splits)

lemma wf_ds_strlen [wf_intros]: "wf_store s \<Longrightarrow> clock_ok e \<Longrightarrow> wf_store (snd (ds_strlen e k s))"
  by (cases rule: find_live_wf_cases [of s "clock e 0" k]) (simp_all add: ds_strlen_def wf_intros)

lemma wf_mget_one: "wf_store s \<Longrightarrow> in_llong now \<Longrightarrow> wf_store (snd (mget_one now k s))"
  by (cases rule: find_live_wf_cases [of s now k]) (simp_all add: mget_one_def wf_intros)

lemma wf_mget_loop: "wf_store s \<Longrightarrow> in_llong now \<Longrightarrow> wf_store (snd (mget_loop now ks s))"
proof (induction now ks s rule: mget_loop.induct)
  case (2 now k ks s)
  then show ?case using wf_mget_one [of s now k] by (auto simp: Let_def split: prod.splits)
qed simp

lemma wf_ds_mget [wf_intros]: "wf_store s \<Longrightarrow> clock_ok e \<Longrightarrow> wf_store (snd (ds_mget e ks s))"
  by (simp add: ds_mget_def wf_mget_loop)

lemma wf_mset_loop: "wf_store s \<Longrightarrow> in_llong now \<Longrightarrow> wf_store (mset_loop now kvs s)"
  by (induction now kvs s rule: mset_loop.induct) (simp_all add: wf_intros)

lemma wf_ds_mset [wf_intros]: "wf_store s \<Longrightarrow> clock_ok e \<Longrightarrow> wf_store (ds_mset e kvs s)"
  by (simp add: ds_mset_def wf_mset_loop wf_intros)

end
