(* ===== verification/StoreCollections.thy ===== *)
theory StoreCollections
  imports StoreStrings
begin

text \<open>
  The list, hash and set operations of \<open>DataStore\<close>. The result structs of the source that pair a
  status with a payload are pairs here. A list is a deque (front first), a hash an association
  list with distinct fields, a set a list without duplicates.
\<close>

section \<open>Lists\<close>

definition list_object :: "string list \<Rightarrow> int \<Rightarrow> ValueObject" where
  "list_object l now =
     \<lparr>vo_value = [], vo_list = l, vo_hash = [], vo_set = [], vo_type = type_List,
      createdAt = now, expiresAt = -1, lastAccessedAt = now\<rparr>"

definition push_front_all :: "string list \<Rightarrow> string list \<Rightarrow> string list" where
  "push_front_all l vals = foldl (\<lambda>l v. v # l) l vals"

definition push_back_all :: "string list \<Rightarrow> string list \<Rightarrow> string list" where
  "push_back_all l vals = foldl (\<lambda>l v. l @ [v]) l vals"

lemma push_front_all_eq: "push_front_all l vals = rev vals @ l"
  by (induction vals arbitrary: l) (auto simp: push_front_all_def)

lemma push_back_all_eq: "push_back_all l vals = l @ vals"
  by (induction vals arbitrary: l) (auto simp: push_back_all_def)

text \<open>
  The size of an existing list is read through the iterator after the eviction loop, as in
  \<open>append\<close>.
\<close>

definition ds_lpush :: "env \<Rightarrow> string \<Rightarrow> string list \<Rightarrow> DataStore \<Rightarrow> (nat option \<times> DataStore) outcome" where
  "ds_lpush e k vals s =
     (let now = clock e 0 in
      case find_live now k s of
        (None, s') \<Rightarrow>
          let l = push_front_all [] vals
          in Inr (Some (length l), evictIfNeeded e (put_key k (list_object l now) s'))
      | (Some obj, s') \<Rightarrow>
          if vo_type obj \<noteq> type_List then Inr (None, s')
          else (let s'' = evictIfNeeded e
                  (put_key k (obj\<lparr>vo_list := push_front_all (vo_list obj) vals, lastAccessedAt := now\<rparr>) s')
                in case find_key k s'' of
                     None \<Rightarrow> Inl DanglingIterator
                   | Some obj' \<Rightarrow> Inr (Some (length (vo_list obj')), s'')))"

definition ds_rpush :: "env \<Rightarrow> string \<Rightarrow> string list \<Rightarrow> DataStore \<Rightarrow> (nat option \<times> DataStore) outcome" where
  "ds_rpush e k vals s =
     (let now = clock e 0 in
      case find_live now k s of
        (None, s') \<Rightarrow>
          let l = push_back_all [] vals
          in Inr (Some (length l), evictIfNeeded e (put_key k (list_object l now) s'))
      | (Some obj, s') \<Rightarrow>
          if vo_type obj \<noteq> type_List then Inr (None, s')
          else (let s'' = evictIfNeeded e
                  (put_key k (obj\<lparr>vo_list := push_back_all (vo_list obj) vals, lastAccessedAt := now\<rparr>) s')
                in case find_key k s'' of
                     None \<Rightarrow> Inl DanglingIterator
                   | Some obj' \<Rightarrow> Inr (Some (length (vo_list obj')), s'')))"

type_synonym ListPopResult = "DataStoreStatus \<times> string"

definition ds_lpop :: "env \<Rightarrow> string \<Rightarrow> DataStore \<Rightarrow> ListPopResult \<times> DataStore" where
  "ds_lpop e k s =
     (let now = clock e 0 in
      case find_live now k s of
        (None, s') \<Rightarrow> ((Missing, []), s')
      | (Some obj, s') \<Rightarrow>
          if vo_type obj \<noteq> type_List then ((WrongType, []), s')
          else (case vo_list obj of
                  [] \<Rightarrow> ((Missing, []), s')
                | v # rest \<Rightarrow>
                    ((Ok, v),
                     if rest = [] then erase_key k s'
                     else put_key k (obj\<lparr>vo_list := rest, lastAccessedAt := now\<rparr>) s')))"

definition ds_rpop :: "env \<Rightarrow> string \<Rightarrow> DataStore \<Rightarrow> ListPopResult \<times> DataStore" where
  "ds_rpop e k s =
     (let now = clock e 0 in
      case find_live now k s of
        (None, s') \<Rightarrow> ((Missing, []), s')
      | (Some obj, s') \<Rightarrow>
          if vo_type obj \<noteq> type_List then ((WrongType, []), s')
          else if vo_list obj = [] then ((Missing, []), s')
          else (let v = last (vo_list obj); rest = butlast (vo_list obj)
                in ((Ok, v),
                    if rest = [] then erase_key k s'
                    else put_key k (obj\<lparr>vo_list := rest, lastAccessedAt := now\<rparr>) s')))"

text \<open>
  A negative index counts from the end. The sums cannot overflow: the size of a deque is far below
  the largest \<open>long long\<close> and a sum has operands of opposite sign.
\<close>

definition normalizeRange :: "int \<Rightarrow> int \<Rightarrow> nat \<Rightarrow> nat \<times> nat" where
  "normalizeRange start stop sz =
     (if sz = 0 then (1, 0)
      else (let len = int sz;
                start1 = (if start < 0 then len + start else start);
                stop1 = (if stop < 0 then len + stop else stop);
                start2 = max start1 0;
                stop2 = min stop1 (len - 1)
            in if start2 > stop2 \<or> start2 \<ge> len then (1, 0) else (nat start2, nat stop2)))"

type_synonym ListRangeResult = "DataStoreStatus \<times> string list"

definition ds_lrange :: "env \<Rightarrow> string \<Rightarrow> int \<Rightarrow> int \<Rightarrow> DataStore \<Rightarrow> ListRangeResult \<times> DataStore" where
  "ds_lrange e k start stop s =
     (let now = clock e 0 in
      case find_live now k s of
        (None, s') \<Rightarrow> ((Missing, []), s')
      | (Some obj, s') \<Rightarrow>
          if vo_type obj \<noteq> type_List then ((WrongType, []), s')
          else (let (first, second) = normalizeRange start stop (length (vo_list obj))
                in if first > second then ((Ok, []), s')
                   else ((Ok, map (\<lambda>i. vo_list obj ! i) [first..<Suc second]), touch now k obj s')))"

section \<open>Hashes\<close>

definition hash_object :: "(string \<times> string) list \<Rightarrow> int \<Rightarrow> ValueObject" where
  "hash_object h now =
     \<lparr>vo_value = [], vo_list = [], vo_hash = h, vo_set = [], vo_type = type_Hash,
      createdAt = now, expiresAt = -1, lastAccessedAt = now\<rparr>"

definition ds_hset :: "env \<Rightarrow> string \<Rightarrow> string \<Rightarrow> string \<Rightarrow> DataStore \<Rightarrow> nat option \<times> DataStore" where
  "ds_hset e k field v s =
     (let now = clock e 0 in
      case find_live now k s of
        (None, s') \<Rightarrow> (Some 1, evictIfNeeded e (put_key k (hash_object [(field, v)] now) s'))
      | (Some obj, s') \<Rightarrow>
          if vo_type obj \<noteq> type_Hash then (None, s')
          else (Some (if map_of (vo_hash obj) field = None then 1 else 0),
                evictIfNeeded e (put_key k
                  (obj\<lparr>vo_hash := AList.update field v (vo_hash obj), lastAccessedAt := now\<rparr>) s')))"

type_synonym HashGetResult = "DataStoreStatus \<times> string option"

definition ds_hget :: "env \<Rightarrow> string \<Rightarrow> string \<Rightarrow> DataStore \<Rightarrow> HashGetResult \<times> DataStore" where
  "ds_hget e k field s =
     (let now = clock e 0 in
      case find_live now k s of
        (None, s') \<Rightarrow> ((Missing, None), s')
      | (Some obj, s') \<Rightarrow>
          if vo_type obj \<noteq> type_Hash then ((WrongType, None), s')
          else (case map_of (vo_hash obj) field of
                  None \<Rightarrow> ((Missing, None), s')
                | Some v \<Rightarrow> ((Ok, Some v), touch now k obj s')))"

definition ds_hdel :: "env \<Rightarrow> string \<Rightarrow> string \<Rightarrow> DataStore \<Rightarrow> nat option \<times> DataStore" where
  "ds_hdel e k field s =
     (let now = clock e 0 in
      case find_live now k s of
        (None, s') \<Rightarrow> (Some 0, s')
      | (Some obj, s') \<Rightarrow>
          if vo_type obj \<noteq> type_Hash then (None, s')
          else (let h = AList.delete field (vo_hash obj);
                    removed = (if map_of (vo_hash obj) field = None then 0 else 1)
                in (Some removed,
                    if h = [] then erase_key k s'
                    else put_key k (obj\<lparr>vo_hash := h, lastAccessedAt := now\<rparr>) s')))"

definition ds_hexists :: "env \<Rightarrow> string \<Rightarrow> string \<Rightarrow> DataStore \<Rightarrow> bool option \<times> DataStore" where
  "ds_hexists e k field s =
     (let now = clock e 0 in
      case find_live now k s of
        (None, s') \<Rightarrow> (Some False, s')
      | (Some obj, s') \<Rightarrow>
          if vo_type obj \<noteq> type_Hash then (None, s')
          else (Some (map_of (vo_hash obj) field \<noteq> None), touch now k obj s'))"

type_synonym HashGetAllResult = "DataStoreStatus \<times> (string \<times> string) list"

definition ds_hgetall :: "env \<Rightarrow> string \<Rightarrow> DataStore \<Rightarrow> HashGetAllResult \<times> DataStore" where
  "ds_hgetall e k s =
     (let now = clock e 0 in
      case find_live now k s of
        (None, s') \<Rightarrow> ((Missing, []), s')
      | (Some obj, s') \<Rightarrow>
          if vo_type obj \<noteq> type_Hash then ((WrongType, []), s')
          else ((Ok, sort_key fst (vo_hash obj)), touch now k obj s'))"

section \<open>Sets\<close>

definition set_object :: "string list \<Rightarrow> int \<Rightarrow> ValueObject" where
  "set_object ms now =
     \<lparr>vo_value = [], vo_list = [], vo_hash = [], vo_set = ms, vo_type = type_Set,
      createdAt = now, expiresAt = -1, lastAccessedAt = now\<rparr>"

fun insert_all :: "string list \<Rightarrow> string list \<Rightarrow> nat \<Rightarrow> string list \<times> nat" where
  "insert_all ms [] added = (ms, added)"
| "insert_all ms (x # xs) added =
     (if x \<in> set ms then insert_all ms xs added else insert_all (ms @ [x]) xs (added + 1))"

fun erase_all :: "string list \<Rightarrow> string list \<Rightarrow> nat \<Rightarrow> string list \<times> nat" where
  "erase_all ms [] removed = (ms, removed)"
| "erase_all ms (x # xs) removed =
     (if x \<in> set ms then erase_all (remove1 x ms) xs (removed + 1) else erase_all ms xs removed)"

definition ds_sadd :: "env \<Rightarrow> string \<Rightarrow> string list \<Rightarrow> DataStore \<Rightarrow> nat option \<times> DataStore" where
  "ds_sadd e k members s =
     (let now = clock e 0 in
      case find_live now k s of
        (None, s') \<Rightarrow>
          let (ms, added) = insert_all [] members 0
          in (Some added, evictIfNeeded e (put_key k (set_object ms now) s'))
      | (Some obj, s') \<Rightarrow>
          if vo_type obj \<noteq> type_Set then (None, s')
          else (let (ms, added) = insert_all (vo_set obj) members 0
                in (Some added,
                    evictIfNeeded e (put_key k (obj\<lparr>vo_set := ms, lastAccessedAt := now\<rparr>) s'))))"

definition ds_srem :: "env \<Rightarrow> string \<Rightarrow> string list \<Rightarrow> DataStore \<Rightarrow> nat option \<times> DataStore" where
  "ds_srem e k members s =
     (let now = clock e 0 in
      case find_live now k s of
        (None, s') \<Rightarrow> (Some 0, s')
      | (Some obj, s') \<Rightarrow>
          if vo_type obj \<noteq> type_Set then (None, s')
          else (let (ms, removed) = erase_all (vo_set obj) members 0
                in (Some removed,
                    if ms = [] then erase_key k s'
                    else put_key k (obj\<lparr>vo_set := ms, lastAccessedAt := now\<rparr>) s')))"

definition ds_sismember :: "env \<Rightarrow> string \<Rightarrow> string \<Rightarrow> DataStore \<Rightarrow> bool option \<times> DataStore" where
  "ds_sismember e k member s =
     (let now = clock e 0 in
      case find_live now k s of
        (None, s') \<Rightarrow> (Some False, s')
      | (Some obj, s') \<Rightarrow>
          if vo_type obj \<noteq> type_Set then (None, s')
          else (Some (member \<in> set (vo_set obj)), touch now k obj s'))"

type_synonym SetMembersResult = "DataStoreStatus \<times> string list"

definition ds_smembers :: "env \<Rightarrow> string \<Rightarrow> DataStore \<Rightarrow> SetMembersResult \<times> DataStore" where
  "ds_smembers e k s =
     (let now = clock e 0 in
      case find_live now k s of
        (None, s') \<Rightarrow> ((Missing, []), s')
      | (Some obj, s') \<Rightarrow>
          if vo_type obj \<noteq> type_Set then ((WrongType, []), s')
          else ((Ok, sort (vo_set obj)), touch now k obj s'))"

definition ds_scard :: "env \<Rightarrow> string \<Rightarrow> DataStore \<Rightarrow> nat option \<times> DataStore" where
  "ds_scard e k s =
     (let now = clock e 0 in
      case find_live now k s of
        (None, s') \<Rightarrow> (Some 0, s')
      | (Some obj, s') \<Rightarrow>
          if vo_type obj \<noteq> type_Set then (None, s')
          else (Some (length (vo_set obj)), touch now k obj s'))"

section \<open>The member loops\<close>

lemma set_insert_all [simp]: "set (fst (insert_all ms xs n)) = set ms \<union> set xs"
  by (induction ms xs n rule: insert_all.induct) auto

lemma distinct_insert_all [simp]: "distinct ms \<Longrightarrow> distinct (fst (insert_all ms xs n))"
  by (induction ms xs n rule: insert_all.induct) auto

lemma count_insert_all [simp]: "snd (insert_all ms xs n) = n + card (set xs - set ms)"
proof (induction ms xs n rule: insert_all.induct)
  case (2 ms x xs n)
  show ?case
  proof (cases "x \<in> set ms")
    case True
    then show ?thesis using "2.IH"(1) by simp
  next
    case False
    then have "set (x # xs) - set ms = insert x (set xs - set (ms @ [x]))" by auto
    then have "card (set (x # xs) - set ms) = Suc (card (set xs - set (ms @ [x])))" by simp
    then show ?thesis using False "2.IH"(2) by simp
  qed
qed simp

lemma set_erase_all [simp]: "distinct ms \<Longrightarrow> set (fst (erase_all ms xs n)) = set ms - set xs"
  by (induction ms xs n rule: erase_all.induct) auto

lemma distinct_erase_all [simp]: "distinct ms \<Longrightarrow> distinct (fst (erase_all ms xs n))"
  by (induction ms xs n rule: erase_all.induct) auto

lemma count_erase_all [simp]: "distinct ms \<Longrightarrow> snd (erase_all ms xs n) = n + card (set ms \<inter> set xs)"
proof (induction ms xs n rule: erase_all.induct)
  case (2 ms x xs n)
  show ?case
  proof (cases "x \<in> set ms")
    case True
    then have "set ms \<inter> set (x # xs) = insert x (set (remove1 x ms) \<inter> set xs)"
      using "2.prems" by auto
    then have "card (set ms \<inter> set (x # xs)) = Suc (card (set (remove1 x ms) \<inter> set xs))"
      using "2.prems" by simp
    then show ?thesis using True "2.IH"(1) "2.prems" by simp
  next
    case False
    then show ?thesis using "2.IH"(2) "2.prems" by simp
  qed
qed simp

section \<open>Ranges\<close>

text \<open>
  The index range selected by \<open>LRANGE\<close>: counted from the end when negative, clipped to the list.
\<close>

definition from_end :: "int \<Rightarrow> nat \<Rightarrow> int" where
  "from_end i n = (if i < 0 then int n + i else i)"

lemma normalizeRange_cases:
  "normalizeRange start stop n = (1, 0) \<and> {i. i < n \<and> from_end start n \<le> int i \<and> int i \<le> from_end stop n} = {} \<or>
   (\<exists>a b. normalizeRange start stop n = (a, b) \<and> a \<le> b \<and> b < n \<and>
      {i. i < n \<and> from_end start n \<le> int i \<and> int i \<le> from_end stop n} = {a..b})"
proof (cases "n = 0 \<or> max (from_end start n) 0 > min (from_end stop n) (int n - 1)
    \<or> max (from_end start n) 0 \<ge> int n")
  case True
  then have "normalizeRange start stop n = (1, 0)"
    by (auto simp: normalizeRange_def from_end_def Let_def)
  moreover have "{i. i < n \<and> from_end start n \<le> int i \<and> int i \<le> from_end stop n} = {}"
    using True by auto
  ultimately show ?thesis by simp
next
  case False
  let ?a = "nat (max (from_end start n) 0)" and ?b = "nat (min (from_end stop n) (int n - 1))"
  have "normalizeRange start stop n = (?a, ?b)"
    using False by (auto simp: normalizeRange_def from_end_def Let_def)
  moreover have "?a \<le> ?b" "?b < n" using False by linarith+
  moreover have "{i. i < n \<and> from_end start n \<le> int i \<and> int i \<le> from_end stop n} = {?a..?b}"
    using False by auto
  ultimately show ?thesis by blast
qed

lemma map_nth_range: "b < length l \<Longrightarrow> map (\<lambda>i. l ! i) [a..<Suc b] = drop a (take (Suc b) l)"
  by (rule nth_equalityI) (auto simp del: upt_Suc)

section \<open>Well-formedness\<close>

lemma wf_list_object [simp]: "in_llong now \<Longrightarrow> wf_obj (list_object l now)"
  by (simp add: wf_obj_def wf_payload_def wf_times_def list_object_def)

lemma wf_hash_object [simp]: "in_llong now \<Longrightarrow> distinct_keys h \<Longrightarrow> wf_obj (hash_object h now)"
  by (simp add: wf_obj_def wf_payload_def wf_times_def hash_object_def)

lemma wf_set_object [simp]: "in_llong now \<Longrightarrow> distinct ms \<Longrightarrow> wf_obj (set_object ms now)"
  by (simp add: wf_obj_def wf_payload_def wf_times_def set_object_def)

lemma wf_obj_list [simp]: "wf_obj obj \<Longrightarrow> vo_type obj = type_List \<Longrightarrow> wf_obj (obj\<lparr>vo_list := l\<rparr>)"
  by (simp add: wf_obj_def wf_payload_def wf_times_def)

lemma wf_obj_hash [simp]:
  "wf_obj obj \<Longrightarrow> vo_type obj = type_Hash \<Longrightarrow> distinct_keys h \<Longrightarrow> wf_obj (obj\<lparr>vo_hash := h\<rparr>)"
  by (simp add: wf_obj_def wf_payload_def wf_times_def)

lemma wf_obj_set [simp]:
  "wf_obj obj \<Longrightarrow> vo_type obj = type_Set \<Longrightarrow> distinct ms \<Longrightarrow> wf_obj (obj\<lparr>vo_set := ms\<rparr>)"
  by (simp add: wf_obj_def wf_payload_def wf_times_def)

lemma wf_obj_distinct:
  "wf_obj obj \<Longrightarrow> distinct_keys (vo_hash obj)" "wf_obj obj \<Longrightarrow> distinct (vo_set obj)"
  by (auto simp: wf_obj_def wf_payload_def)

lemmas wf_payloads = wf_obj_distinct amap.invar_insert amap.invar_erase

lemma wf_ds_lpush:
  "wf_store s \<Longrightarrow> clock_ok e \<Longrightarrow> ds_lpush e k vs s = Inr (r, s') \<Longrightarrow> wf_store s'"
  by (cases rule: find_live_wf_cases [of s "clock e 0" k])
    (auto simp: ds_lpush_def Let_def wf_intros split: if_splits option.splits)

lemma wf_ds_rpush:
  "wf_store s \<Longrightarrow> clock_ok e \<Longrightarrow> ds_rpush e k vs s = Inr (r, s') \<Longrightarrow> wf_store s'"
  by (cases rule: find_live_wf_cases [of s "clock e 0" k])
    (auto simp: ds_rpush_def Let_def wf_intros split: if_splits option.splits)

lemma wf_ds_lpop [wf_intros]: "wf_store s \<Longrightarrow> clock_ok e \<Longrightarrow> wf_store (snd (ds_lpop e k s))"
  by (cases rule: find_live_wf_cases [of s "clock e 0" k])
    (simp_all add: ds_lpop_def Let_def wf_intros split: list.splits)

lemma wf_ds_rpop [wf_intros]: "wf_store s \<Longrightarrow> clock_ok e \<Longrightarrow> wf_store (snd (ds_rpop e k s))"
  by (cases rule: find_live_wf_cases [of s "clock e 0" k])
    (simp_all add: ds_rpop_def Let_def wf_intros)

lemma wf_ds_lrange [wf_intros]:
  "wf_store s \<Longrightarrow> clock_ok e \<Longrightarrow> wf_store (snd (ds_lrange e k a b s))"
  by (cases rule: find_live_wf_cases [of s "clock e 0" k])
    (simp_all add: ds_lrange_def Let_def wf_intros split: prod.splits)

lemma wf_ds_hset [wf_intros]: "wf_store s \<Longrightarrow> clock_ok e \<Longrightarrow> wf_store (snd (ds_hset e k f v s))"
  by (cases rule: find_live_wf_cases [of s "clock e 0" k])
    (simp_all add: ds_hset_def Let_def wf_intros wf_payloads)

lemma wf_ds_hget [wf_intros]: "wf_store s \<Longrightarrow> clock_ok e \<Longrightarrow> wf_store (snd (ds_hget e k f s))"
  by (cases rule: find_live_wf_cases [of s "clock e 0" k])
    (simp_all add: ds_hget_def Let_def wf_intros split: option.splits)

lemma wf_ds_hdel [wf_intros]: "wf_store s \<Longrightarrow> clock_ok e \<Longrightarrow> wf_store (snd (ds_hdel e k f s))"
  by (cases rule: find_live_wf_cases [of s "clock e 0" k])
    (simp_all add: ds_hdel_def Let_def wf_intros wf_payloads)

lemma wf_ds_hexists [wf_intros]: "wf_store s \<Longrightarrow> clock_ok e \<Longrightarrow> wf_store (snd (ds_hexists e k f s))"
  by (cases rule: find_live_wf_cases [of s "clock e 0" k]) (simp_all add: ds_hexists_def Let_def wf_intros)

lemma wf_ds_hgetall [wf_intros]: "wf_store s \<Longrightarrow> clock_ok e \<Longrightarrow> wf_store (snd (ds_hgetall e k s))"
  by (cases rule: find_live_wf_cases [of s "clock e 0" k]) (simp_all add: ds_hgetall_def Let_def wf_intros)

lemma wf_ds_sadd [wf_intros]: "wf_store s \<Longrightarrow> clock_ok e \<Longrightarrow> wf_store (snd (ds_sadd e k ms s))"
  by (cases rule: find_live_wf_cases [of s "clock e 0" k])
    (auto simp: ds_sadd_def Let_def wf_intros case_prod_beta wf_payloads)

lemma wf_ds_srem [wf_intros]: "wf_store s \<Longrightarrow> clock_ok e \<Longrightarrow> wf_store (snd (ds_srem e k ms s))"
  by (cases rule: find_live_wf_cases [of s "clock e 0" k])
    (auto simp: ds_srem_def Let_def wf_intros case_prod_beta wf_payloads)

lemma wf_ds_sismember [wf_intros]:
  "wf_store s \<Longrightarrow> clock_ok e \<Longrightarrow> wf_store (snd (ds_sismember e k m s))"
  by (cases rule: find_live_wf_cases [of s "clock e 0" k]) (simp_all add: ds_sismember_def Let_def wf_intros)

lemma wf_ds_smembers [wf_intros]: "wf_store s \<Longrightarrow> clock_ok e \<Longrightarrow> wf_store (snd (ds_smembers e k s))"
  by (cases rule: find_live_wf_cases [of s "clock e 0" k]) (simp_all add: ds_smembers_def Let_def wf_intros)

lemma wf_ds_scard [wf_intros]: "wf_store s \<Longrightarrow> clock_ok e \<Longrightarrow> wf_store (snd (ds_scard e k s))"
  by (cases rule: find_live_wf_cases [of s "clock e 0" k]) (simp_all add: ds_scard_def Let_def wf_intros)

end
