(* ===== verification/StoreKeys.thy ===== *)
theory StoreKeys
  imports StoreCollections
begin

text \<open>
  The operations of \<open>DataStore\<close> on the key space as a whole: expiry sweeps, listings, renames,
  moves between stores, flushes, snapshots and statistics.
\<close>

definition live_entries :: "int \<Rightarrow> keyspace \<Rightarrow> keyspace" where
  "live_entries now m = filter (\<lambda>(k, obj). \<not> isExpired obj now) m"

text \<open>The erasing loop keeps the live entries and counts the others.\<close>

definition ds_removeExpired :: "env \<Rightarrow> DataStore \<Rightarrow> nat \<times> DataStore" where
  "ds_removeExpired e s =
     (let live = live_entries (clock e 0) (store_values s);
          removed = length (store_values s) - length live
      in (removed, s\<lparr>store_values := live, expiredKeys := expiredKeys s + removed\<rparr>))"

definition ds_keys :: "env \<Rightarrow> string \<Rightarrow> DataStore \<Rightarrow> string list \<times> DataStore" where
  "ds_keys e pattern s =
     (let (_, s') = ds_removeExpired e s
      in (sort (filter (\<lambda>k. matchesPattern k pattern) (map fst (iteration e (store_values s')))), s'))"

definition ds_dbsize :: "env \<Rightarrow> DataStore \<Rightarrow> nat \<times> DataStore" where
  "ds_dbsize e s = (let (_, s') = ds_removeExpired e s in (length (store_values s'), s'))"

definition ds_memoryUsage :: "env \<Rightarrow> string \<Rightarrow> DataStore \<Rightarrow> nat option \<times> DataStore" where
  "ds_memoryUsage e k s =
     (case find_live (clock e 0) k s of
        (None, s') \<Rightarrow> (None, s')
      | (Some obj, s') \<Rightarrow>
          (Some (estimateObjectBytes e k (obj\<lparr>lastAccessedAt := clock e 0\<rparr>)), touch (clock e 0) k obj s'))"

definition ds_type :: "env \<Rightarrow> string \<Rightarrow> DataStore \<Rightarrow> string \<times> DataStore" where
  "ds_type e k s =
     (case find_live (clock e 0) k s of
        (None, s') \<Rightarrow> (''none'', s')
      | (Some obj, s') \<Rightarrow> (vo_type obj, touch (clock e 1) k obj s'))"

text \<open>
  The destination is inserted before the source iterator is erased. An insertion of a new key may
  rehash the table, which invalidates every iterator.
\<close>

definition ds_rename :: "env \<Rightarrow> string \<Rightarrow> string \<Rightarrow> DataStore \<Rightarrow> (bool \<times> DataStore) outcome" where
  "ds_rename e source destination s =
     (case find_live (clock e 0) source s of
        (None, s') \<Rightarrow> Inr (False, s')
      | (Some obj, s') \<Rightarrow>
          if source = destination then Inr (True, s')
          else if find_key destination s' = None \<and> rehashes e (length (store_values s'))
          then Inl DanglingIterator
          else Inr (True, evictIfNeeded e (erase_key source
                 (put_key destination (obj\<lparr>lastAccessedAt := clock e 1\<rparr>) s'))))"

text \<open>
  Moving a key to a different store; the caller compares the addresses of the two stores. The
  expired entry of either store is erased on the way.
\<close>

definition ds_moveKeyTo :: "env \<Rightarrow> string \<Rightarrow> DataStore \<Rightarrow> DataStore \<Rightarrow> bool \<times> DataStore \<times> DataStore" where
  "ds_moveKeyTo e k src dst =
     (let now = clock e 0 in
      case find_live now k src of
        (None, src') \<Rightarrow> (False, src', dst)
      | (Some obj, src') \<Rightarrow>
          (case find_live now k dst of
             (Some _, dst') \<Rightarrow> (False, src', dst')
           | (None, dst') \<Rightarrow>
               (True, erase_key k src',
                evictIfNeeded e (put_key k (obj\<lparr>lastAccessedAt := now\<rparr>) dst'))))"

definition ds_flushdb :: "DataStore \<Rightarrow> DataStore" where
  "ds_flushdb s = s\<lparr>store_values := []\<rparr>"

type_synonym SnapshotEntry = "string \<times> ValueObject"

definition ds_snapshot :: "env \<Rightarrow> DataStore \<Rightarrow> SnapshotEntry list \<times> DataStore" where
  "ds_snapshot e s =
     (let live = live_entries (clock e 0) (store_values s)
      in (sort_key fst live, s\<lparr>store_values := live\<rparr>))"

fun load_loop :: "int \<Rightarrow> SnapshotEntry list \<Rightarrow> DataStore \<Rightarrow> DataStore" where
  "load_loop now [] s = s"
| "load_loop now ((k, obj) # rest) s =
     (if isExpired obj now then load_loop now rest s
      else load_loop now rest
             (put_key k (if lastAccessedAt obj = -1 then obj\<lparr>lastAccessedAt := now\<rparr> else obj) s))"

definition ds_loadSnapshot :: "env \<Rightarrow> SnapshotEntry list \<Rightarrow> DataStore \<Rightarrow> DataStore" where
  "ds_loadSnapshot e entries s =
     evictIfNeeded e (load_loop (clock e 0) entries (s\<lparr>store_values := []\<rparr>))"

definition ds_stats :: "env \<Rightarrow> DataStore \<Rightarrow> StoreStats" where
  "ds_stats e s =
     \<lparr>stat_keys = length (store_values s),
      stat_estimatedBytes =
        sum_list (map (\<lambda>(k, obj). estimateObjectBytes e k obj) (iteration e (store_values s))),
      stat_evictedKeys = evictedKeys s,
      stat_expiredKeys = expiredKeys s\<rparr>"

section \<open>Filtering out the expired entries\<close>

lemma distinct_live_entries [simp]:
  "distinct_keys m \<Longrightarrow> distinct_keys (live_entries now m)"
  unfolding live_entries_def by (rule distinct_map_filter)

lemma map_of_live_entries:
  assumes "distinct_keys m"
  shows "map_of (live_entries now m) k =
    (case map_of m k of None \<Rightarrow> None | Some obj \<Rightarrow> if isExpired obj now then None else Some obj)"
  using assms
  by (induction m) (auto simp: live_entries_def map_of_eq_None_iff split: option.splits)

lemma find_key_live_entries:
  "wf_store s \<Longrightarrow> find_key k (s\<lparr>store_values := live_entries now (store_values s)\<rparr>) =
    (case find_key k s of None \<Rightarrow> None | Some obj \<Rightarrow> if isExpired obj now then None else Some obj)"
  by (simp add: find_key_def map_of_live_entries wf_distinct)

lemma length_live_entries: "length (live_entries now m) \<le> length m"
  by (simp add: live_entries_def)

lemma set_live_entries:
  "set (live_entries now m) = {(k, obj) \<in> set m. \<not> isExpired obj now}"
  by (auto simp: live_entries_def)

section \<open>Well-formedness\<close>

lemma wf_live_entries [wf_intros]:
  "wf_store s \<Longrightarrow> wf_store (s\<lparr>store_values := live_entries now (store_values s)\<rparr>)"
  by (auto simp: wf_store_def set_live_entries)

lemma wf_removeExpired [wf_intros]: "wf_store s \<Longrightarrow> wf_store (snd (ds_removeExpired e s))"
  by (simp add: ds_removeExpired_def Let_def wf_live_entries)

lemma wf_ds_keys [wf_intros]: "wf_store s \<Longrightarrow> wf_store (snd (ds_keys e p s))"
  using wf_removeExpired [of s e] by (simp add: ds_keys_def Let_def case_prod_beta)

lemma wf_ds_dbsize [wf_intros]: "wf_store s \<Longrightarrow> wf_store (snd (ds_dbsize e s))"
  using wf_removeExpired [of s e] by (simp add: ds_dbsize_def Let_def case_prod_beta)

lemma wf_ds_memoryUsage [wf_intros]:
  "wf_store s \<Longrightarrow> clock_ok e \<Longrightarrow> wf_store (snd (ds_memoryUsage e k s))"
  by (cases rule: find_live_wf_cases [of s "clock e 0" k]) (simp_all add: ds_memoryUsage_def wf_intros)

lemma wf_ds_type [wf_intros]: "wf_store s \<Longrightarrow> clock_ok e \<Longrightarrow> wf_store (snd (ds_type e k s))"
  by (cases rule: find_live_wf_cases [of s "clock e 0" k]) (simp_all add: ds_type_def wf_intros)

lemma wf_ds_rename:
  "wf_store s \<Longrightarrow> clock_ok e \<Longrightarrow> ds_rename e a b s = Inr (r, s') \<Longrightarrow> wf_store s'"
  by (cases rule: find_live_wf_cases [of s "clock e 0" a])
    (auto simp: ds_rename_def wf_intros split: if_splits)

lemma wf_ds_moveKeyTo:
  assumes "wf_store src" "wf_store dst" "clock_ok e" "ds_moveKeyTo e k src dst = (r, src', dst')"
  shows "wf_store src' \<and> wf_store dst'"
  using assms
  by (cases rule: find_live_wf_cases [OF assms(1), of "clock e 0" k];
      cases rule: find_live_wf_cases [OF assms(2), of "clock e 0" k])
    (auto simp: ds_moveKeyTo_def Let_def wf_intros)

lemma wf_ds_flushdb [wf_intros]: "wf_store s \<Longrightarrow> wf_store (ds_flushdb s)"
  by (simp add: wf_store_def ds_flushdb_def)

lemma wf_ds_snapshot [wf_intros]: "wf_store s \<Longrightarrow> wf_store (snd (ds_snapshot e s))"
  by (simp add: ds_snapshot_def Let_def wf_live_entries)

lemma wf_load_loop:
  "wf_store s \<Longrightarrow> in_llong now \<Longrightarrow> \<forall>(k, obj)\<in>set entries. wf_obj obj \<Longrightarrow> wf_store (load_loop now entries s)"
  by (induction now entries s rule: load_loop.induct) (auto simp: wf_intros)

lemma wf_ds_loadSnapshot [wf_intros]:
  "clock_ok e \<Longrightarrow> \<forall>(k, obj)\<in>set entries. wf_obj obj \<Longrightarrow> wf_store (ds_loadSnapshot e entries s)"
  unfolding ds_loadSnapshot_def
  by (intro wf_evictIfNeeded wf_load_loop) (simp_all add: wf_store_def)

section \<open>Listings\<close>

lemma ds_keys_spec:
  assumes "wf_store s"
  shows "sorted (fst (ds_keys e p s)) \<and> distinct (fst (ds_keys e p s)) \<and>
    set (fst (ds_keys e p s)) =
      {k. (\<exists>obj. find_key k s = Some obj \<and> \<not> isExpired obj (clock e 0)) \<and> matchesPattern k p}"
proof -
  let ?live = "live_entries (clock e 0) (store_values s)"
  have keys: "fst (ds_keys e p s) = sort (filter (\<lambda>k. matchesPattern k p) (map fst (iteration e ?live)))"
    by (simp add: ds_keys_def ds_removeExpired_def Let_def)
  have d: "distinct_keys ?live" using assms by (simp add: wf_distinct)
  then have "distinct (map fst (iteration e ?live))"
    by (simp add: iteration_def)
  moreover have "fst ` set ?live = {k. \<exists>obj. find_key k s = Some obj \<and> \<not> isExpired obj (clock e 0)}"
    using find_key_def [of _ s] map_of_eq_Some_iff [OF wf_distinct [OF assms]]
    by (force simp: set_live_entries)
  ultimately show ?thesis by (auto simp: keys)
qed

lemma ds_dbsize_spec:
  assumes "wf_store s"
  shows "fst (ds_dbsize e s) =
    card {k. \<exists>obj. find_key k s = Some obj \<and> \<not> isExpired obj (clock e 0)}"
proof -
  let ?live = "live_entries (clock e 0) (store_values s)"
  have "fst (ds_dbsize e s) = card (dom (map_of ?live))"
    using assms by (simp add: ds_dbsize_def ds_removeExpired_def Let_def length_eq_card_dom wf_distinct)
  moreover have "dom (map_of ?live) = {k. \<exists>obj. find_key k s = Some obj \<and> \<not> isExpired obj (clock e 0)}"
    using assms by (auto simp: map_of_live_entries wf_distinct find_key_def split: option.splits if_splits)
  ultimately show ?thesis by simp
qed

end
