(* ===== verification/StoreSpec.thy ===== *)
theory StoreSpec
  imports StoreKeys
begin

text \<open>
  An abstract specification of the datastore and the proof that \<open>DataStore\<close> implements it. The
  abstract state is a partial map from keys to a typed value and an optional deadline; hash
  fields are a map and set members a set, and a key whose deadline has passed is simply absent.
  Neither the hash table, nor the time stamps used for eviction, nor the moment at which an
  expired entry is really erased can be seen there. With eviction switched off every operation
  of the source simulates its abstract counterpart, and so do runs of operations over time.
\<close>

section \<open>The abstract key space\<close>

datatype rvalue = RString string | RList "string list" | RHash "string \<rightharpoonup> string" | RSet "string set"

type_synonym entry = "rvalue \<times> int option"

type_synonym space = "string \<rightharpoonup> entry"

fun as_string :: "rvalue \<Rightarrow> string option" where
  "as_string (RString v) = Some v"
| "as_string _ = None"

fun as_list :: "rvalue \<Rightarrow> string list option" where
  "as_list (RList l) = Some l"
| "as_list _ = None"

fun as_hash :: "rvalue \<Rightarrow> (string \<rightharpoonup> string) option" where
  "as_hash (RHash h) = Some h"
| "as_hash _ = None"

fun as_set :: "rvalue \<Rightarrow> string set option" where
  "as_set (RSet ms) = Some ms"
| "as_set _ = None"

fun type_name :: "rvalue \<Rightarrow> string" where
  "type_name (RString _) = type_String"
| "type_name (RList _) = type_List"
| "type_name (RHash _) = type_Hash"
| "type_name (RSet _) = type_Set"

definition abs_value :: "ValueObject \<Rightarrow> rvalue" where
  "abs_value obj =
     (if vo_type obj = type_String then RString (vo_value obj)
      else if vo_type obj = type_List then RList (vo_list obj)
      else if vo_type obj = type_Hash then RHash (map_of (vo_hash obj))
      else RSet (set (vo_set obj)))"

definition deadline :: "ValueObject \<Rightarrow> int option" where
  "deadline obj = (if expiresAt obj = -1 then None else Some (expiresAt obj))"

definition abs_entry :: "ValueObject \<Rightarrow> entry" where
  "abs_entry obj = (abs_value obj, deadline obj)"

text \<open>What a client can see of a store at time \<open>now\<close>.\<close>

definition view :: "int \<Rightarrow> DataStore \<Rightarrow> space" where
  "view now s = (\<lambda>k. case find_key k s of
     None \<Rightarrow> None | Some obj \<Rightarrow> if isExpired obj now then None else Some (abs_entry obj))"

text \<open>Entering a value with a deadline that may already have passed; letting time pass.\<close>

definition enter :: "int \<Rightarrow> string \<Rightarrow> entry \<Rightarrow> space \<Rightarrow> space" where
  "enter now k x m = m(k := (case snd x of None \<Rightarrow> Some x | Some d \<Rightarrow> if d \<le> now then None else Some x))"

definition tick :: "int \<Rightarrow> space \<Rightarrow> space" where
  "tick now m = (\<lambda>k. case m k of
     None \<Rightarrow> None
   | Some (v, None) \<Rightarrow> Some (v, None)
   | Some (v, Some d) \<Rightarrow> if d \<le> now then None else Some (v, Some d))"

section \<open>Operations and replies\<close>

datatype store_op =
    OpSet string string int | OpGet string | OpDel string | OpExists string
  | OpExpire string int | OpTtl string | OpPersist string | OpIncrBy string int
  | OpAppend string string | OpStrlen string | OpMget "string list" | OpMset "(string \<times> string) list"
  | OpLpush string "string list" | OpRpush string "string list" | OpLpop string | OpRpop string
  | OpLrange string int int
  | OpHset string string string | OpHget string string | OpHdel string string
  | OpHexists string string | OpHgetall string
  | OpSadd string "string list" | OpSrem string "string list" | OpSismember string string
  | OpSmembers string | OpScard string
  | OpKeys string | OpDbsize | OpType string | OpRename string string | OpFlushdb | OpRemoveExpired

datatype reply =
    RepUnit | RepBool bool | RepInt int | RepNat nat | RepStr string | RepStrs "string list"
  | RepOptInt "int option" | RepOptNat "nat option" | RepOptStr "string option"
  | RepOptBool "bool option" | RepOptStrs "string option list"
  | RepPop "DataStoreStatus \<times> string" | RepRange "DataStoreStatus \<times> string list"
  | RepHget "DataStoreStatus \<times> string option"
  | RepFields "DataStoreStatus \<times> (string \<times> string) list"

abbreviation ret :: "('a \<Rightarrow> reply) \<Rightarrow> 'a \<times> DataStore \<Rightarrow> (reply \<times> DataStore) outcome" where
  "ret R p \<equiv> Inr (R (fst p), snd p)"

fun run_op :: "env \<Rightarrow> store_op \<Rightarrow> DataStore \<Rightarrow> (reply \<times> DataStore) outcome" where
  "run_op e (OpSet k v t) s = and_then (ds_set e k v t s) (\<lambda>s'. Inr (RepUnit, s'))"
| "run_op e (OpGet k) s = ret RepOptStr (ds_get e k s)"
| "run_op e (OpDel k) s = ret RepBool (ds_del k s)"
| "run_op e (OpExists k) s = ret RepBool (ds_exists e k s)"
| "run_op e (OpExpire k t) s = and_then (ds_expire e k t s) (ret RepBool)"
| "run_op e (OpTtl k) s = and_then (ds_ttl e k s) (ret RepInt)"
| "run_op e (OpPersist k) s = ret RepBool (ds_persist e k s)"
| "run_op e (OpIncrBy k d) s = and_then (ds_incrBy e k d s) (ret RepOptInt)"
| "run_op e (OpAppend k x) s = and_then (ds_append e k x s) (ret RepOptNat)"
| "run_op e (OpStrlen k) s = ret RepOptNat (ds_strlen e k s)"
| "run_op e (OpMget ks) s = ret RepOptStrs (ds_mget e ks s)"
| "run_op e (OpMset kvs) s = Inr (RepUnit, ds_mset e kvs s)"
| "run_op e (OpLpush k vs) s = and_then (ds_lpush e k vs s) (ret RepOptNat)"
| "run_op e (OpRpush k vs) s = and_then (ds_rpush e k vs s) (ret RepOptNat)"
| "run_op e (OpLpop k) s = ret RepPop (ds_lpop e k s)"
| "run_op e (OpRpop k) s = ret RepPop (ds_rpop e k s)"
| "run_op e (OpLrange k a b) s = ret RepRange (ds_lrange e k a b s)"
| "run_op e (OpHset k f v) s = ret RepOptNat (ds_hset e k f v s)"
| "run_op e (OpHget k f) s = ret RepHget (ds_hget e k f s)"
| "run_op e (OpHdel k f) s = ret RepOptNat (ds_hdel e k f s)"
| "run_op e (OpHexists k f) s = ret RepOptBool (ds_hexists e k f s)"
| "run_op e (OpHgetall k) s = ret RepFields (ds_hgetall e k s)"
| "run_op e (OpSadd k ms) s = ret RepOptNat (ds_sadd e k ms s)"
| "run_op e (OpSrem k ms) s = ret RepOptNat (ds_srem e k ms s)"
| "run_op e (OpSismember k x) s = ret RepOptBool (ds_sismember e k x s)"
| "run_op e (OpSmembers k) s = ret RepRange (ds_smembers e k s)"
| "run_op e (OpScard k) s = ret RepOptNat (ds_scard e k s)"
| "run_op e (OpKeys p) s = ret RepStrs (ds_keys e p s)"
| "run_op e OpDbsize s = ret RepNat (ds_dbsize e s)"
| "run_op e (OpType k) s = ret RepStr (ds_type e k s)"
| "run_op e (OpRename a b) s = and_then (ds_rename e a b s) (ret RepBool)"
| "run_op e OpFlushdb s = Inr (RepUnit, ds_flushdb s)"
| "run_op e OpRemoveExpired s = Inr (RepUnit, snd (ds_removeExpired e s))"

section \<open>The abstract operations\<close>

definition on_key :: "space \<Rightarrow> string \<Rightarrow> (rvalue \<Rightarrow> 'a option) \<Rightarrow>
    (reply \<times> space) \<Rightarrow> (reply \<times> space) \<Rightarrow> ('a \<Rightarrow> int option \<Rightarrow> reply \<times> space) \<Rightarrow> reply \<times> space" where
  "on_key m k sel absent wrong f =
     (case m k of
        None \<Rightarrow> absent
      | Some (v, d) \<Rightarrow> (case sel v of None \<Rightarrow> wrong | Some x \<Rightarrow> f x d))"

definition spec_get :: "space \<Rightarrow> string \<Rightarrow> string option" where
  "spec_get m k = (case m k of None \<Rightarrow> None | Some (v, d) \<Rightarrow> as_string v)"

fun spec_mset :: "(string \<times> string) list \<Rightarrow> space \<Rightarrow> space" where
  "spec_mset [] m = m"
| "spec_mset ((k, v) # kvs) m = spec_mset kvs (m(k \<mapsto> (RString v, None)))"

definition fields_of :: "(string \<rightharpoonup> string) \<Rightarrow> (string \<times> string) list" where
  "fields_of h = map (\<lambda>f. (f, the (h f))) (sorted_list_of_set (dom h))"

fun spec_op :: "int \<Rightarrow> store_op \<Rightarrow> space \<Rightarrow> reply \<times> space" where
  "spec_op now (OpSet k v t) m =
     (RepUnit, enter now k (RString v, if t \<ge> 0 then Some (now + t * 1000) else None) m)"
| "spec_op now (OpGet k) m = (RepOptStr (spec_get m k), m)"
| "spec_op now (OpDel k) m = (RepBool (m k \<noteq> None), m(k := None))"
| "spec_op now (OpExists k) m = (RepBool (m k \<noteq> None), m)"
| "spec_op now (OpExpire k t) m =
     on_key m k Some (RepBool False, m) (RepBool False, m)
       (\<lambda>v d. (RepBool True, enter now k (v, Some (now + t * 1000)) m))"
| "spec_op now (OpTtl k) m =
     on_key m k Some (RepInt (-2), m) (RepInt (-2), m)
       (\<lambda>v d. (RepInt (case d of None \<Rightarrow> -1 | Some d \<Rightarrow> (d - now + 999) div 1000), m))"
| "spec_op now (OpPersist k) m =
     on_key m k Some (RepBool False, m) (RepBool False, m)
       (\<lambda>v d. (RepBool (d \<noteq> None), m(k \<mapsto> (v, None))))"
| "spec_op now (OpIncrBy k n) m =
     on_key m k as_string
       (RepOptInt (Some n), m(k \<mapsto> (RString (show_int n), None))) (RepOptInt None, m)
       (\<lambda>v d. case parse_ll v of
          None \<Rightarrow> (RepOptInt None, m)
        | Some c \<Rightarrow> (RepOptInt (Some (c + n)), m(k \<mapsto> (RString (show_int (c + n)), d))))"
| "spec_op now (OpAppend k x) m =
     on_key m k as_string
       (RepOptNat (Some (length x)), m(k \<mapsto> (RString x, None))) (RepOptNat None, m)
       (\<lambda>v d. (RepOptNat (Some (length (v @ x))), m(k \<mapsto> (RString (v @ x), d))))"
| "spec_op now (OpStrlen k) m = (RepOptNat (map_option length (spec_get m k)), m)"
| "spec_op now (OpMget ks) m = (RepOptStrs (map (spec_get m) ks), m)"
| "spec_op now (OpMset kvs) m = (RepUnit, spec_mset kvs m)"
| "spec_op now (OpLpush k vs) m =
     on_key m k as_list
       (RepOptNat (Some (length vs)), m(k \<mapsto> (RList (rev vs), None))) (RepOptNat None, m)
       (\<lambda>l d. (RepOptNat (Some (length l + length vs)), m(k \<mapsto> (RList (rev vs @ l), d))))"
| "spec_op now (OpRpush k vs) m =
     on_key m k as_list
       (RepOptNat (Some (length vs)), m(k \<mapsto> (RList vs, None))) (RepOptNat None, m)
       (\<lambda>l d. (RepOptNat (Some (length l + length vs)), m(k \<mapsto> (RList (l @ vs), d))))"
| "spec_op now (OpLpop k) m =
     on_key m k as_list (RepPop (Missing, []), m) (RepPop (WrongType, []), m)
       (\<lambda>l d. case l of
          [] \<Rightarrow> (RepPop (Missing, []), m)
        | x # r \<Rightarrow> (RepPop (Ok, x), if r = [] then m(k := None) else m(k \<mapsto> (RList r, d))))"
| "spec_op now (OpRpop k) m =
     on_key m k as_list (RepPop (Missing, []), m) (RepPop (WrongType, []), m)
       (\<lambda>l d. case rev l of
          [] \<Rightarrow> (RepPop (Missing, []), m)
        | x # r \<Rightarrow> (RepPop (Ok, x), if r = [] then m(k := None) else m(k \<mapsto> (RList (rev r), d))))"
| "spec_op now (OpLrange k a b) m =
     on_key m k as_list (RepRange (Missing, []), m) (RepRange (WrongType, []), m)
       (\<lambda>l d. (RepRange (Ok, nths l {i. i < length l \<and> from_end a (length l) \<le> int i
                                        \<and> int i \<le> from_end b (length l)}), m))"
| "spec_op now (OpHset k f v) m =
     on_key m k as_hash
       (RepOptNat (Some 1), m(k \<mapsto> (RHash [f \<mapsto> v], None))) (RepOptNat None, m)
       (\<lambda>h d. (RepOptNat (Some (if h f = None then 1 else 0)), m(k \<mapsto> (RHash (h(f \<mapsto> v)), d))))"
| "spec_op now (OpHget k f) m =
     on_key m k as_hash (RepHget (Missing, None), m) (RepHget (WrongType, None), m)
       (\<lambda>h d. (RepHget (case h f of None \<Rightarrow> (Missing, None) | Some v \<Rightarrow> (Ok, Some v)), m))"
| "spec_op now (OpHdel k f) m =
     on_key m k as_hash (RepOptNat (Some 0), m) (RepOptNat None, m)
       (\<lambda>h d. (RepOptNat (Some (if h f = None then 0 else 1)),
               if h(f := None) = Map.empty then m(k := None) else m(k \<mapsto> (RHash (h(f := None)), d))))"
| "spec_op now (OpHexists k f) m =
     on_key m k as_hash (RepOptBool (Some False), m) (RepOptBool None, m)
       (\<lambda>h d. (RepOptBool (Some (h f \<noteq> None)), m))"
| "spec_op now (OpHgetall k) m =
     on_key m k as_hash (RepFields (Missing, []), m) (RepFields (WrongType, []), m)
       (\<lambda>h d. (RepFields (Ok, fields_of h), m))"
| "spec_op now (OpSadd k xs) m =
     on_key m k as_set
       (RepOptNat (Some (card (set xs))), m(k \<mapsto> (RSet (set xs), None))) (RepOptNat None, m)
       (\<lambda>ms d. (RepOptNat (Some (card (set xs - ms))), m(k \<mapsto> (RSet (ms \<union> set xs), d))))"
| "spec_op now (OpSrem k xs) m =
     on_key m k as_set (RepOptNat (Some 0), m) (RepOptNat None, m)
       (\<lambda>ms d. (RepOptNat (Some (card (ms \<inter> set xs))),
                if ms - set xs = {} then m(k := None) else m(k \<mapsto> (RSet (ms - set xs), d))))"
| "spec_op now (OpSismember k x) m =
     on_key m k as_set (RepOptBool (Some False), m) (RepOptBool None, m)
       (\<lambda>ms d. (RepOptBool (Some (x \<in> ms)), m))"
| "spec_op now (OpSmembers k) m =
     on_key m k as_set (RepRange (Missing, []), m) (RepRange (WrongType, []), m)
       (\<lambda>ms d. (RepRange (Ok, sorted_list_of_set ms), m))"
| "spec_op now (OpScard k) m =
     on_key m k as_set (RepOptNat (Some 0), m) (RepOptNat None, m)
       (\<lambda>ms d. (RepOptNat (Some (card ms)), m))"
| "spec_op now (OpKeys p) m = (RepStrs (sorted_list_of_set {k \<in> dom m. matchesPattern k p}), m)"
| "spec_op now OpDbsize m = (RepNat (card (dom m)), m)"
| "spec_op now (OpType k) m =
     on_key m k Some (RepStr ''none'', m) (RepStr ''none'', m) (\<lambda>v d. (RepStr (type_name v), m))"
| "spec_op now (OpRename a b) m =
     on_key m a Some (RepBool False, m) (RepBool False, m)
       (\<lambda>v d. (RepBool True, if a = b then m else (m(b \<mapsto> (v, d)))(a := None)))"
| "spec_op now OpFlushdb m = (RepUnit, Map.empty)"
| "spec_op now OpRemoveExpired m = (RepUnit, m)"

text \<open>
  One abstract step. The reply of \<open>DEL\<close> is loose: for a key whose deadline has passed but that has
  not been erased yet the source also answers yes.
\<close>

definition spec_step :: "int \<Rightarrow> store_op \<Rightarrow> space \<Rightarrow> reply \<Rightarrow> space \<Rightarrow> bool" where
  "spec_step now op m r m' \<longleftrightarrow> m' = snd (spec_op now op m) \<and>
     (r = fst (spec_op now op m) \<or> (\<exists>k. op = OpDel k \<and> m k = None \<and> r = RepBool True))"

section \<open>How the primitive accesses change the view\<close>

lemma abs_entry_accessed [simp]: "abs_entry (obj\<lparr>lastAccessedAt := t\<rparr>) = abs_entry obj"
  by (simp add: abs_entry_def abs_value_def deadline_def)

lemma view_put [view_simps]:
  "view now (put_key k obj s) =
     (view now s)(k := if isExpired obj now then None else Some (abs_entry obj))"
  by (auto simp: view_def)

lemma view_erase [view_simps]: "view now (erase_key k s) = (view now s)(k := None)"
  by (auto simp: view_def)

lemma view_touch [view_simps]:
  "find_key k s = Some obj \<Longrightarrow> view now (touch t k obj s) = view now s"
  by (auto simp: touch_def view_put) (auto simp: view_def fun_eq_iff)

lemma view_counters [simp]:
  "view now (s\<lparr>evictedKeys := n\<rparr>) = view now s"
  "view now (s\<lparr>expiredKeys := n\<rparr>) = view now s"
  by (simp_all add: view_def)

lemma view_live_entries [view_simps]:
  "wf_store s \<Longrightarrow> view now (s\<lparr>store_values := live_entries now (store_values s)\<rparr>) = view now s"
  by (auto simp: view_def find_key_live_entries fun_eq_iff split: option.splits)

lemma dom_view: "dom (view now s) = {k. \<exists>obj. find_key k s = Some obj \<and> \<not> isExpired obj now}"
  by (auto simp: view_def split: option.splits if_splits)

lemma dom_view_filter:
  "{k \<in> dom (view now s). P k} = {k. (\<exists>obj. find_key k s = Some obj \<and> \<not> isExpired obj now) \<and> P k}"
  unfolding dom_view by blast

text \<open>The two situations in which an operation finds a key.\<close>

lemma find_live_view_cases:
  assumes "wf_store s"
  obtains (gone) s' where "find_live now k s = (None, s')" "view now s' = view now s"
      "view now s k = None" "eviction_off s' = eviction_off s" "wf_store s'"
      "evictionConfig s' = evictionConfig s"
    | (live) obj where "find_live now k s = (Some obj, s)" "find_key k s = Some obj"
      "\<not> isExpired obj now" "view now s k = Some (abs_entry obj)" "wf_obj obj"
proof (cases rule: find_live_wf_cases [OF assms, of now k])
  case (1 s')
  then have "view now s' = view now s"
    by (auto simp: find_live_None view_erase fun_eq_iff) (auto simp: view_def)
  moreover have "view now s k = None" using 1 by (auto simp: find_live_None view_def)
  moreover have "eviction_off s' = eviction_off s" using 1 by (simp add: eviction_off_def)
  ultimately show ?thesis using 1 gone by blast
next
  case (2 obj)
  then show ?thesis by (intro live) (auto simp: view_def)
qed

section \<open>Reading an abstract value off an object\<close>

lemma wf_type_cases:
  "wf_obj obj \<Longrightarrow> vo_type obj = type_String \<or> vo_type obj = type_List \<or> vo_type obj = type_Hash
     \<or> vo_type obj = type_Set"
  by (auto simp: wf_obj_def wf_payload_def)

lemma as_string_abs [simp]:
  "as_string (abs_value obj) = (if vo_type obj = type_String then Some (vo_value obj) else None)"
  by (simp add: abs_value_def)

lemma as_list_abs [simp]:
  "as_list (abs_value obj) = (if vo_type obj = type_List then Some (vo_list obj) else None)"
  by (simp add: abs_value_def)

lemma as_hash_abs [simp]:
  "as_hash (abs_value obj) = (if vo_type obj = type_Hash then Some (map_of (vo_hash obj)) else None)"
  by (simp add: abs_value_def)

lemma as_set_abs [simp]:
  "wf_obj obj \<Longrightarrow>
     as_set (abs_value obj) = (if vo_type obj = type_Set then Some (set (vo_set obj)) else None)"
  using wf_type_cases [of obj] by (auto simp: abs_value_def)

lemma type_name_abs [simp]: "wf_obj obj \<Longrightarrow> type_name (abs_value obj) = vo_type obj"
  using wf_type_cases [of obj] by (auto simp: abs_value_def)

lemma abs_value_updates [simp]:
  "abs_value (obj\<lparr>expiresAt := x\<rparr>) = abs_value obj"
  "abs_value (obj\<lparr>lastAccessedAt := x\<rparr>) = abs_value obj"
  "vo_type obj = type_String \<Longrightarrow> abs_value (obj\<lparr>vo_value := v\<rparr>) = RString v"
  "vo_type obj = type_List \<Longrightarrow> abs_value (obj\<lparr>vo_list := l\<rparr>) = RList l"
  "vo_type obj = type_Hash \<Longrightarrow> abs_value (obj\<lparr>vo_hash := h\<rparr>) = RHash (map_of h)"
  "vo_type obj = type_Set \<Longrightarrow> abs_value (obj\<lparr>vo_set := ms\<rparr>) = RSet (set ms)"
  by (simp_all add: abs_value_def)

lemma deadline_updates [simp]:
  "deadline (obj\<lparr>lastAccessedAt := x\<rparr>) = deadline obj"
  "deadline (obj\<lparr>vo_value := v\<rparr>) = deadline obj"
  "deadline (obj\<lparr>vo_list := l\<rparr>) = deadline obj"
  "deadline (obj\<lparr>vo_hash := h\<rparr>) = deadline obj"
  "deadline (obj\<lparr>vo_set := ms\<rparr>) = deadline obj"
  "deadline (obj\<lparr>expiresAt := y\<rparr>) = (if y = -1 then None else Some y)"
  by (simp_all add: deadline_def)

lemma isExpired_updates [simp]:
  "isExpired (obj\<lparr>vo_value := v\<rparr>) now = isExpired obj now"
  "isExpired (obj\<lparr>vo_list := l\<rparr>) now = isExpired obj now"
  "isExpired (obj\<lparr>vo_hash := h\<rparr>) now = isExpired obj now"
  "isExpired (obj\<lparr>vo_set := ms\<rparr>) now = isExpired obj now"
  "isExpired (obj\<lparr>expiresAt := y\<rparr>) now = (y \<noteq> -1 \<and> y \<le> now)"
  by (simp_all add: isExpired_def)

lemma new_objects [simp]:
  "abs_value (string_object v c x a) = RString v"
  "deadline (string_object v c x a) = (if x = -1 then None else Some x)"
  "isExpired (string_object v c x a) now = (x \<noteq> -1 \<and> x \<le> now)"
  "abs_value (list_object l now') = RList l"
  "abs_value (hash_object h now') = RHash (map_of h)"
  "abs_value (set_object ms now') = RSet (set ms)"
  "deadline (list_object l now') = None"
  "deadline (hash_object h now') = None"
  "deadline (set_object ms now') = None"
  "\<not> isExpired (list_object l now') now"
  "\<not> isExpired (hash_object h now') now"
  "\<not> isExpired (set_object ms now') now"
  by (simp_all add: string_object_def list_object_def hash_object_def set_object_def
      abs_value_def deadline_def isExpired_def)

lemma wf_hash_empty_iff: "AList.delete f h = [] \<longleftrightarrow> (map_of h)(f := None) = Map.empty"
  by (simp flip: amap.find_erase)

lemma fields_of_map_of:
  assumes "distinct_keys h"
  shows "fields_of (map_of h) = sort_key fst h"
proof -
  have "sorted_list_of_set (dom (map_of h)) = map fst (sort_key fst h)"
    using assms distinct_card [of "keys_of h"]
    by (intro sorted_list_of_set_unique [THEN iffD1])
      (auto simp: dom_map_of_conv_image_fst finite_dom_map_of strict_sorted_iff)
  moreover have "map (\<lambda>f. (f, the (map_of h f))) (map fst (sort_key fst h)) = sort_key fst h"
    using assms by (auto intro!: map_idI)
  ultimately show ?thesis by (simp add: fields_of_def)
qed

lemma sorted_list_of_members: "distinct ms \<Longrightarrow> sorted_list_of_set (set ms) = sort ms"
  by (simp add: sorted_list_of_set_sort_remdups distinct_remdups_id)

lemma nths_cong_index:
  assumes "\<And>i. i < length l \<Longrightarrow> i \<in> A \<longleftrightarrow> i \<in> B"
  shows "nths l A = nths l B"
proof -
  have "filter (\<lambda>p. snd p \<in> A) (zip l [0..<length l]) = filter (\<lambda>p. snd p \<in> B) (zip l [0..<length l])"
    by (rule filter_cong) (auto simp: assms dest: set_zip_rightD)
  then show ?thesis by (simp add: nths_def)
qed

lemma nths_atLeastAtMost: "b < length l \<Longrightarrow> nths l {a..b} = drop a (take (Suc b) l)"
proof -
  assume b: "b < length l"
  have "nths (take (Suc b) l @ drop (Suc b) l) {a..b} = nths (take (Suc b) l) {a..b}"
    by (simp only: nths_append) (use b in \<open>auto simp: nths_empty\<close>)
  also have "\<dots> = nths (take (Suc b) l) {i. a \<le> i}"
    using b by (intro nths_cong_index) auto
  finally show ?thesis unfolding append_take_drop_id by (simp add: drop_eq_nths)
qed

end
