(* ===== verification/StoreRefine.thy ===== *)
theory StoreRefine
  imports StoreSpec
begin

text \<open>
  The proof that \<open>DataStore\<close> implements the specification of \<open>StoreSpec\<close>: operation by operation,
  then for one step of any operation, then for runs of operations over time. The invariants of
  the specification hold of the source through this simulation.
\<close>

section \<open>Every operation simulates its abstract counterpart\<close>

definition refines :: "env \<Rightarrow> store_op \<Rightarrow> DataStore \<Rightarrow> bool" where
  "refines e op s \<longleftrightarrow> (\<forall>r s'. run_op e op s = Inr (r, s') \<longrightarrow>
     spec_step (clock e 0) op (view (clock e 0) s) r (view (clock e 0) s'))"

lemmas refine_simps = refines_def spec_step_def on_key_def Let_def view_simps abs_entry_def
  spec_get_def enter_def

lemma refine_get: "wf_store s \<Longrightarrow> refines e (OpGet k) s"
  by (cases rule: find_live_view_cases [of s "clock e 0" k])
    (simp_all add: ds_get_def refine_simps)

lemma refine_strlen: "wf_store s \<Longrightarrow> refines e (OpStrlen k) s"
  by (cases rule: find_live_view_cases [of s "clock e 0" k])
    (simp_all add: ds_strlen_def refine_simps)

lemma refine_exists: "wf_store s \<Longrightarrow> refines e (OpExists k) s"
  by (cases rule: find_live_view_cases [of s "clock e 0" k])
    (simp_all add: ds_exists_def refine_simps)

lemma refine_type: "wf_store s \<Longrightarrow> refines e (OpType k) s"
  by (cases rule: find_live_view_cases [of s "clock e 0" k])
    (simp_all add: ds_type_def refine_simps)

lemma refine_del: "refines e (OpDel k) s"
  by (auto simp: ds_del_def refine_simps) (auto simp: view_def split: option.splits if_splits)

lemma refine_set:
  assumes "eviction_off s" "0 \<le> clock e 0"
  shows "refines e (OpSet k v t) s"
  using assms by (auto simp: ds_set_def refine_simps split: if_splits dest!: deadline_after_range)

lemma refine_expire:
  "wf_store s \<Longrightarrow> 0 \<le> clock e 0 \<Longrightarrow> 0 \<le> t \<Longrightarrow> refines e (OpExpire k t) s"
  by (cases rule: find_live_view_cases [of s "clock e 0" k])
    (auto simp: ds_expire_def refine_simps dest!: deadline_after_range)

lemma refine_ttl: "wf_store s \<Longrightarrow> refines e (OpTtl k) s"
  by (cases rule: find_live_view_cases [of s "clock e 0" k])
    (auto simp: ds_ttl_def refine_simps deadline_def split: if_splits)

lemma refine_persist: "wf_store s \<Longrightarrow> eviction_off s \<Longrightarrow> refines e (OpPersist k) s"
  by (cases rule: find_live_view_cases [of s "clock e 0" k])
    (auto simp: ds_persist_def refine_simps deadline_def)

lemma refine_incrBy: "wf_store s \<Longrightarrow> eviction_off s \<Longrightarrow> refines e (OpIncrBy k d) s"
  by (cases rule: find_live_view_cases [of s "clock e 0" k])
    (auto simp: ds_incrBy_def refine_simps deadline_def isExpired_def string_object_def
      abs_value_def split: if_splits option.splits)

lemma refine_append: "wf_store s \<Longrightarrow> eviction_off s \<Longrightarrow> refines e (OpAppend k x) s"
  by (cases rule: find_live_view_cases [of s "clock e 0" k])
    (auto simp: ds_append_def refine_simps split: if_splits)

lemma refine_lpush: "wf_store s \<Longrightarrow> eviction_off s \<Longrightarrow> refines e (OpLpush k vs) s"
  by (cases rule: find_live_view_cases [of s "clock e 0" k])
    (auto simp: ds_lpush_def refine_simps push_front_all_eq split: if_splits)

lemma refine_rpush: "wf_store s \<Longrightarrow> eviction_off s \<Longrightarrow> refines e (OpRpush k vs) s"
  by (cases rule: find_live_view_cases [of s "clock e 0" k])
    (auto simp: ds_rpush_def refine_simps push_back_all_eq split: if_splits)

lemma refine_lpop: "wf_store s \<Longrightarrow> refines e (OpLpop k) s"
  by (cases rule: find_live_view_cases [of s "clock e 0" k])
    (auto simp: ds_lpop_def refine_simps split: list.splits)

lemma refine_rpop:
  assumes "wf_store s"
  shows "refines e (OpRpop k) s"
proof (cases rule: find_live_view_cases [OF assms, of "clock e 0" k])
  case (2 obj)
  then show ?thesis
    by (cases "vo_list obj" rule: rev_cases) (auto simp: ds_rpop_def refine_simps)
qed (simp add: ds_rpop_def refine_simps)

lemma refine_lrange:
  assumes "wf_store s"
  shows "refines e (OpLrange k a b) s"
proof (cases rule: find_live_view_cases [OF assms, of "clock e 0" k])
  case (2 obj)
  let ?l = "vo_list obj" and ?n = "normalizeRange a b (length (vo_list obj))"
  let ?I = "{i. i < length ?l \<and> from_end a (length ?l) \<le> int i \<and> int i \<le> from_end b (length ?l)}"
  have range: "nths ?l ?I =
      (if fst ?n > snd ?n then [] else map (\<lambda>i. ?l ! i) [fst ?n..<Suc (snd ?n)])"
    using normalizeRange_cases [of a b "length ?l"]
  proof (elim disjE exE conjE)
    fix x y
    assume "?n = (x, y)" "x \<le> y" "y < length ?l" "?I = {x..y}"
    then show ?thesis by (simp add: map_nth_range nths_atLeastAtMost del: upt_Suc)
  next
    assume "?n = (1, 0)" "?I = {}"
    then show ?thesis by (simp only: nths_empty fst_conv snd_conv) simp
  qed
  show ?thesis
    using 2 by (simp add: ds_lrange_def refine_simps case_prod_beta range del: upt_Suc)
qed (simp add: ds_lrange_def refine_simps)

lemma refine_hset: "wf_store s \<Longrightarrow> eviction_off s \<Longrightarrow> refines e (OpHset k f v) s"
  by (cases rule: find_live_view_cases [of s "clock e 0" k])
    (auto simp: ds_hset_def refine_simps amap.find_insert)

lemma refine_hget: "wf_store s \<Longrightarrow> refines e (OpHget k f) s"
  by (cases rule: find_live_view_cases [of s "clock e 0" k])
    (auto simp: ds_hget_def refine_simps split: option.splits)

lemma refine_hdel: "wf_store s \<Longrightarrow> refines e (OpHdel k f) s"
  by (cases rule: find_live_view_cases [of s "clock e 0" k])
    (auto simp: ds_hdel_def refine_simps amap.find_erase wf_hash_empty_iff)

lemma refine_hexists: "wf_store s \<Longrightarrow> refines e (OpHexists k f) s"
  by (cases rule: find_live_view_cases [of s "clock e 0" k])
    (auto simp: ds_hexists_def refine_simps)

lemma refine_hgetall: "wf_store s \<Longrightarrow> refines e (OpHgetall k) s"
  by (cases rule: find_live_view_cases [of s "clock e 0" k])
    (simp_all add: ds_hgetall_def refine_simps fields_of_map_of wf_obj_distinct)

lemma refine_sadd: "wf_store s \<Longrightarrow> eviction_off s \<Longrightarrow> refines e (OpSadd k xs) s"
  by (cases rule: find_live_view_cases [of s "clock e 0" k])
    (auto simp: ds_sadd_def refine_simps case_prod_beta)

lemma refine_srem:
  assumes "wf_store s"
  shows "refines e (OpSrem k xs) s"
proof (cases rule: find_live_view_cases [OF assms, of "clock e 0" k])
  case (2 obj)
  then have "fst (erase_all (vo_set obj) xs 0) = [] \<longleftrightarrow> set (vo_set obj) - set xs = {}"
    using set_erase_all [of "vo_set obj" xs 0] wf_obj_distinct by (metis set_empty)
  with 2 show ?thesis
    by (simp add: ds_srem_def refine_simps case_prod_beta wf_obj_distinct)
qed (simp add: ds_srem_def refine_simps)

lemma refine_sismember: "wf_store s \<Longrightarrow> refines e (OpSismember k x) s"
  by (cases rule: find_live_view_cases [of s "clock e 0" k])
    (simp_all add: ds_sismember_def refine_simps)

lemma refine_smembers: "wf_store s \<Longrightarrow> refines e (OpSmembers k) s"
  by (cases rule: find_live_view_cases [of s "clock e 0" k])
    (simp_all add: ds_smembers_def refine_simps sorted_list_of_members wf_obj_distinct)

lemma refine_scard: "wf_store s \<Longrightarrow> refines e (OpScard k) s"
  by (cases rule: find_live_view_cases [of s "clock e 0" k])
    (simp_all add: ds_scard_def refine_simps distinct_card wf_obj_distinct)

lemma refine_rename: "wf_store s \<Longrightarrow> eviction_off s \<Longrightarrow> refines e (OpRename a b) s"
  by (cases rule: find_live_view_cases [of s "clock e 0" a])
    (auto simp: ds_rename_def refine_simps split: if_splits)

lemma view_removeExpired [view_simps]:
  "wf_store s \<Longrightarrow> view (clock e 0) (snd (ds_removeExpired e s)) = view (clock e 0) s"
  using view_live_entries [of s "clock e 0"] by (simp add: ds_removeExpired_def Let_def)

lemma refine_removeExpired: "wf_store s \<Longrightarrow> refines e OpRemoveExpired s"
  by (simp add: refine_simps view_removeExpired)

lemma refine_flushdb: "refines e OpFlushdb s"
  by (simp add: refine_simps ds_flushdb_def) (simp add: view_def find_key_def)


lemma snd_ds_keys_dbsize [simp]:
  "snd (ds_keys e p s) = snd (ds_removeExpired e s)"
  "snd (ds_dbsize e s) = snd (ds_removeExpired e s)"
  by (simp_all add: ds_keys_def ds_dbsize_def Let_def case_prod_beta)

lemma refine_keys:
  assumes "wf_store s"
  shows "refines e (OpKeys p) s"
proof -
  have "fst (ds_keys e p s) = sorted_list_of_set {k \<in> dom (view (clock e 0) s). matchesPattern k p}"
    unfolding dom_view_filter using ds_keys_spec [OF assms, of e p]
    by (metis sorted_list_of_members sorted_sort_id)
  then show ?thesis using assms by (simp add: refine_simps view_removeExpired)
qed

lemma refine_dbsize: "wf_store s \<Longrightarrow> refines e OpDbsize s"
  by (simp add: refine_simps view_removeExpired ds_dbsize_spec dom_view)

lemma mget_one_refines:
  assumes "wf_store s" "in_llong now"
  shows "fst (mget_one now k s) = spec_get (view now s) k \<and>
    view now (snd (mget_one now k s)) = view now s \<and> wf_store (snd (mget_one now k s))"
proof (cases rule: find_live_view_cases [OF assms(1), of now k])
  case (2 obj)
  then show ?thesis using assms by (auto simp: mget_one_def refine_simps wf_intros)
qed (simp add: mget_one_def refine_simps)

lemma mget_loop_refines:
  "wf_store s \<Longrightarrow> in_llong now \<Longrightarrow>
     fst (mget_loop now ks s) = map (spec_get (view now s)) ks \<and>
     view now (snd (mget_loop now ks s)) = view now s"
proof (induction ks arbitrary: s)
  case (Cons k ks)
  then show ?case using mget_one_refines [OF Cons.prems, of k]
    by (simp add: Let_def case_prod_beta)
qed simp

lemma refine_mget: "wf_store s \<Longrightarrow> clock_ok e \<Longrightarrow> refines e (OpMget ks) s"
  using mget_loop_refines [of s "clock e 0" ks] by (simp add: refine_simps ds_mget_def)

lemma mset_loop_refines: "view now (mset_loop now kvs s) = spec_mset kvs (view now s)"
  by (induction kvs arbitrary: s) (auto simp: view_simps abs_entry_def)

lemma eviction_off_mset_loop [simp]: "eviction_off (mset_loop now kvs s) = eviction_off s"
  by (induction now kvs s rule: mset_loop.induct) simp_all

lemma refine_mset: "eviction_off s \<Longrightarrow> refines e (OpMset kvs) s"
  by (simp add: refine_simps ds_mset_def mset_loop_refines)

lemmas refine_ops = refine_set refine_get refine_del refine_exists refine_expire refine_ttl
  refine_persist refine_incrBy refine_append refine_strlen refine_mget refine_mset refine_lpush
  refine_rpush refine_lpop refine_rpop refine_lrange refine_hset refine_hget refine_hdel
  refine_hexists refine_hgetall refine_sadd refine_srem refine_sismember refine_smembers
  refine_scard refine_keys refine_dbsize refine_type refine_rename refine_flushdb
  refine_removeExpired

fun valid_op :: "store_op \<Rightarrow> bool" where
  "valid_op (OpExpire k t) \<longleftrightarrow> 0 \<le> t"
| "valid_op _ \<longleftrightarrow> True"

definition good_env :: "env \<Rightarrow> bool" where
  "good_env e \<longleftrightarrow> clock_ok e \<and> 0 \<le> clock e 0"

lemma run_op_refines:
  "wf_store s \<Longrightarrow> eviction_off s \<Longrightarrow> good_env e \<Longrightarrow> valid_op op \<Longrightarrow> refines e op s"
  by (cases op) (simp_all add: refine_ops good_env_def)

section \<open>Well-formedness and configuration along a run\<close>

lemmas wf_outcomes = wf_ds_set wf_ds_expire wf_ds_ttl wf_ds_incrBy wf_ds_append wf_ds_lpush
  wf_ds_rpush wf_ds_rename

lemma wf_run_op: "wf_store s \<Longrightarrow> clock_ok e \<Longrightarrow> run_op e op s = Inr (r, s') \<Longrightarrow> wf_store s'"
  by (cases op; clarsimp; (simp add: wf_intros | blast dest: wf_outcomes))

lemma config_find_live [simp]: "evictionConfig (snd (find_live now k s)) = evictionConfig s"
  by (simp add: find_live_def split: option.splits)

lemma find_live_config: "find_live now k s = (x, s') \<Longrightarrow> evictionConfig s' = evictionConfig s"
  using config_find_live [of now k s] by simp

lemma config_touch [simp]: "evictionConfig (touch now k obj s) = evictionConfig s"
  by (simp add: touch_def)

lemma config_mget_loop [simp]: "evictionConfig (snd (mget_loop now ks s)) = evictionConfig s"
proof (induction now ks s rule: mget_loop.induct)
  case (2 now k ks s)
  have "evictionConfig (snd (mget_one now k s)) = evictionConfig s"
    by (cases "find_live now k s") (auto simp: mget_one_def dest: find_live_config split: option.splits)
  then show ?case using "2.IH" [of "mget_one now k s" "fst (mget_one now k s)"]
    by (simp add: Let_def case_prod_beta)
qed simp

lemma config_mset_loop [simp]: "evictionConfig (mset_loop now kvs s) = evictionConfig s"
  by (induction now kvs s rule: mset_loop.induct) simp_all

lemmas ds_defs = ds_set_def ds_get_def ds_del_def ds_exists_def ds_expire_def ds_ttl_def ds_persist_def
  ds_incrBy_def ds_append_def ds_strlen_def ds_mget_def ds_mset_def ds_lpush_def ds_rpush_def
  ds_lpop_def ds_rpop_def ds_lrange_def ds_hset_def ds_hget_def ds_hdel_def ds_hexists_def
  ds_hgetall_def ds_sadd_def ds_srem_def ds_sismember_def ds_smembers_def ds_scard_def
  ds_type_def ds_rename_def ds_flushdb_def ds_removeExpired_def

lemma config_run_op: "run_op e op s = Inr (r, s') \<Longrightarrow> evictionConfig s' = evictionConfig s"
  by (cases op) (auto simp: ds_defs Let_def case_prod_beta split: option.splits if_splits list.splits)

lemma eviction_off_run_op: "run_op e op s = Inr (r, s') \<Longrightarrow> eviction_off s' = eviction_off s"
  by (simp add: eviction_off_def config_run_op)

section \<open>Time\<close>

lemma isExpired_mono: "isExpired obj now \<Longrightarrow> now \<le> later \<Longrightarrow> isExpired obj later"
  by (auto simp: isExpired_def)

lemma view_tick: "now \<le> later \<Longrightarrow> view later s = tick later (view now s)"
  by (auto simp: view_def tick_def abs_entry_def deadline_def isExpired_def fun_eq_iff split: option.splits)


section \<open>Runs\<close>

text \<open>
  A run is a list of operations, each with the environment in which it is executed. Time does not
  run backwards from one operation to the next.
\<close>

fun run_ops :: "(env \<times> store_op) list \<Rightarrow> DataStore \<Rightarrow> (reply list \<times> DataStore) outcome" where
  "run_ops [] s = Inr ([], s)"
| "run_ops ((e, op) # tr) s =
     and_then (run_op e op s) (\<lambda>(r, s'). and_then (run_ops tr s') (\<lambda>(rs, s''). Inr (r # rs, s'')))"

fun spec_run :: "(env \<times> store_op) list \<Rightarrow> space \<Rightarrow> reply list \<Rightarrow> space \<Rightarrow> bool" where
  "spec_run [] m rs m' \<longleftrightarrow> rs = [] \<and> m' = m"
| "spec_run ((e, op) # tr) m [] m' \<longleftrightarrow> False"
| "spec_run ((e, op) # tr) m (r # rs) m' \<longleftrightarrow>
     (\<exists>m1. spec_step (clock e 0) op (tick (clock e 0) m) r m1 \<and> spec_run tr m1 rs m')"

fun timely :: "int \<Rightarrow> (env \<times> store_op) list \<Rightarrow> bool" where
  "timely now [] \<longleftrightarrow> True"
| "timely now ((e, op) # tr) \<longleftrightarrow> now \<le> clock e 0 \<and> good_env e \<and> valid_op op \<and> timely (clock e 0) tr"

fun end_time :: "int \<Rightarrow> (env \<times> store_op) list \<Rightarrow> int" where
  "end_time now [] = now"
| "end_time now ((e, op) # tr) = end_time (clock e 0) tr"

lemma run_op_step:
  assumes "wf_store s" "eviction_off s" "good_env e" "valid_op op" "run_op e op s = Inr (r, s')"
  shows "spec_step (clock e 0) op (view (clock e 0) s) r (view (clock e 0) s')"
    and "wf_store s'" and "eviction_off s'"
  using run_op_refines [OF assms(1-4)] wf_run_op [OF assms(1) _ assms(5)]
    eviction_off_run_op [OF assms(5)] assms
  by (auto simp: refines_def good_env_def)

lemma run_ops_refine:
  "wf_store s \<Longrightarrow> eviction_off s \<Longrightarrow> timely now tr \<Longrightarrow> run_ops tr s = Inr (rs, s') \<Longrightarrow>
     spec_run tr (view now s) rs (view (end_time now tr) s') \<and> wf_store s' \<and> eviction_off s'"
proof (induction tr arbitrary: now s rs)
  case (Cons x tr)
  obtain e op where x: "x = (e, op)" by (cases x)
  from Cons.prems(4) obtain r s1 rs' where r: "run_op e op s = Inr (r, s1)"
      "run_ops tr s1 = Inr (rs', s')" "rs = r # rs'"
    by (auto simp: x)
  have t: "now \<le> clock e 0" "good_env e" "valid_op op" "timely (clock e 0) tr"
    using Cons.prems(3) by (auto simp: x)
  note step = run_op_step [OF Cons.prems(1,2) t(2,3) r(1)]
  have "spec_run tr (view (clock e 0) s1) rs' (view (end_time (clock e 0) tr) s') \<and> wf_store s' \<and> eviction_off s'"
    using Cons.IH [OF step(2,3) t(4) r(2)] .
  with step(1) show ?case by (auto simp: x r(3) view_tick [OF t(1)])
qed simp

section \<open>When an operation is defined\<close>

definition ttl_fits :: "int \<Rightarrow> int \<Rightarrow> bool" where
  "ttl_fits now t \<longleftrightarrow> in_llong (t * 1000) \<and> in_llong (now + t * 1000)"

text \<open>
  The operations that can fault with eviction off, and when they do not: a new deadline fits, a
  counter does not overflow, and an insertion by \<open>rename\<close> does not rehash the table.
\<close>

fun op_safe :: "env \<Rightarrow> store_op \<Rightarrow> DataStore \<Rightarrow> bool" where
  "op_safe e (OpSet k v t) s \<longleftrightarrow> t < 0 \<or> ttl_fits (clock e 0) t"
| "op_safe e (OpExpire k t) s \<longleftrightarrow> view (clock e 0) s k = None \<or> ttl_fits (clock e 0) t"
| "op_safe e (OpIncrBy k d) s \<longleftrightarrow>
     (case view (clock e 0) s k of
        None \<Rightarrow> in_llong d
      | Some (v, _) \<Rightarrow> (case as_string v of None \<Rightarrow> True
          | Some n \<Rightarrow> (case parse_ll n of None \<Rightarrow> True | Some c \<Rightarrow> in_llong (c + d))))"
| "op_safe e (OpRename a b) s \<longleftrightarrow>
     view (clock e 0) s a = None \<or> a = b \<or> find_key b s \<noteq> None \<or> \<not> rehashes e (length (store_values s))"
| "op_safe e _ s \<longleftrightarrow> True"

lemma deadline_after_cases:
  "deadline_after now t = (if ttl_fits now t then Inr (now + t * 1000) else Inl SignedOverflow)"
  by (auto simp: deadline_after_def ttl_fits_def checked_def)

lemma ttl_defined:
  assumes "wf_store s" "clock_ok e" "1000 \<le> clock e 0"
  shows "\<exists>x. ds_ttl e k s = Inr x"
proof (cases rule: find_live_wf_cases [OF assms(1), of "clock e 0" k])
  case (2 obj)
  then have "in_llong (expiresAt obj)" by (simp add: wf_obj_times)
  then show ?thesis using 2 assms(3)
    by (auto simp: ds_ttl_def checked_def in_llong_def isExpired_def llong_min_def llong_max_def)
qed (simp add: ds_ttl_def)

lemma run_op_defined_iff:
  assumes "wf_store s" "eviction_off s" "clock_ok e" "1000 \<le> clock e 0"
  shows "(\<exists>r s'. run_op e op s = Inr (r, s')) \<longleftrightarrow> op_safe e op s"
proof (cases op)
  case (OpSet k v t)
  then show ?thesis by (auto simp: ds_set_def Let_def deadline_after_cases)
next
  case (OpExpire k t)
  then show ?thesis
    by (cases rule: find_live_view_cases [OF assms(1), of "clock e 0" k])
      (auto simp: ds_expire_def deadline_after_cases)
next
  case (OpTtl k)
  then show ?thesis using ttl_defined [OF assms(1,3,4)] by fastforce
next
  case (OpIncrBy k d)
  then show ?thesis
    by (cases rule: find_live_view_cases [OF assms(1), of "clock e 0" k])
      (auto simp: ds_incrBy_def Let_def checked_def abs_entry_def split: option.splits)
next
  case (OpRename a b)
  then show ?thesis
    by (cases rule: find_live_view_cases [OF assms(1), of "clock e 0" a])
      (auto simp: ds_rename_def)
next
  case (OpAppend k x)
  then show ?thesis using assms(2)
    by (cases rule: find_live_view_cases [OF assms(1), of "clock e 0" k]) (auto simp: ds_append_def Let_def)
next
  case (OpLpush k x)
  then show ?thesis using assms(2)
    by (cases rule: find_live_view_cases [OF assms(1), of "clock e 0" k]) (auto simp: ds_lpush_def Let_def)
next
  case (OpRpush k x)
  then show ?thesis using assms(2)
    by (cases rule: find_live_view_cases [OF assms(1), of "clock e 0" k]) (auto simp: ds_rpush_def Let_def)
qed simp_all

section \<open>No empty collections\<close>

fun nonempty_value :: "rvalue \<Rightarrow> bool" where
  "nonempty_value (RString v) \<longleftrightarrow> True"
| "nonempty_value (RList l) \<longleftrightarrow> l \<noteq> []"
| "nonempty_value (RHash h) \<longleftrightarrow> h \<noteq> Map.empty"
| "nonempty_value (RSet ms) \<longleftrightarrow> ms \<noteq> {}"

definition nonempty_space :: "space \<Rightarrow> bool" where
  "nonempty_space m \<longleftrightarrow> (\<forall>k v d. m k = Some (v, d) \<longrightarrow> nonempty_value v)"

text \<open>The commands that add elements name at least one.\<close>

fun adds_something :: "store_op \<Rightarrow> bool" where
  "adds_something (OpLpush k vs) \<longleftrightarrow> vs \<noteq> []"
| "adds_something (OpRpush k vs) \<longleftrightarrow> vs \<noteq> []"
| "adds_something (OpSadd k vs) \<longleftrightarrow> vs \<noteq> []"
| "adds_something _ \<longleftrightarrow> True"

lemma nonempty_upd: "nonempty_space m \<Longrightarrow> nonempty_value v \<Longrightarrow> nonempty_space (m(k \<mapsto> (v, d)))"
  by (simp add: nonempty_space_def)

lemma nonempty_remove: "nonempty_space m \<Longrightarrow> nonempty_space (m(k := None))"
  by (simp add: nonempty_space_def)

lemma nonempty_enter: "nonempty_space m \<Longrightarrow> nonempty_value (fst x) \<Longrightarrow> nonempty_space (enter now k x m)"
  by (cases x) (auto simp: enter_def nonempty_upd nonempty_remove split: option.splits)

lemma nonempty_mset: "nonempty_space m \<Longrightarrow> nonempty_space (spec_mset kvs m)"
  by (induction kvs m rule: spec_mset.induct) (simp_all add: nonempty_upd)

lemma nonempty_tick: "nonempty_space m \<Longrightarrow> nonempty_space (tick now m)"
  by (auto simp: nonempty_space_def tick_def split: option.splits if_splits)

lemma nonempty_spec_op:
  assumes "nonempty_space m" "adds_something op"
  shows "nonempty_space (snd (spec_op now op m))"
proof -
  have v: "nonempty_value v" if "m k = Some (v, d)" for k v d
    using assms(1) that by (auto simp: nonempty_space_def)
  show ?thesis
    using assms
    by (cases op)
      (auto simp: on_key_def nonempty_upd nonempty_remove nonempty_enter nonempty_mset
        simp: nonempty_space_def [of Map.empty] dest: v split: option.splits list.splits)
qed

lemma nonempty_step:
  "spec_step now op m r m' \<Longrightarrow> nonempty_space m \<Longrightarrow> adds_something op \<Longrightarrow> nonempty_space m'"
  by (auto simp: spec_step_def nonempty_spec_op)

section \<open>The store as a machine\<close>

text \<open>A faulting operation is the end of the process; the machine stays where it was.\<close>

definition store_step :: "env \<times> store_op \<Rightarrow> DataStore \<Rightarrow> DataStore" where
  "store_step x s = (case run_op (fst x) (snd x) s of Inl f \<Rightarrow> s | Inr (r, s') \<Rightarrow> s')"

interpretation store: machine store_step "\<lambda>x. clock_ok (fst x)" wf_store
  by unfold_locales (auto simp: store_step_def dest: wf_run_op split: sum.splits)

section \<open>Properties\<close>

definition sample_run :: "(env \<times> store_op) list" where
  "sample_run = [(frozen 1000, OpSet ''k'' ''41'' (-1)), (frozen 2000, OpIncrBy ''k'' 1),
     (frozen 2000, OpExpire ''k'' 1), (frozen 3000, OpGet ''k'')]"

lemma eviction_off_empty [simp]: "eviction_off empty_store"
  by (simp add: eviction_off_def empty_store_def default_eviction_def)

lemma good_frozen: "0 \<le> now \<Longrightarrow> now \<le> 1000000 \<Longrightarrow> good_env (frozen now)"
  by (simp add: good_env_def clock_ok_def frozen_def in_llong_def llong_min_def llong_max_def)

text \<open>
  C7: with eviction off, an operation has undefined behaviour exactly when a deadline or a counter
  leaves the range of \<open>long long\<close>, or when the insertion of \<open>rename\<close> rehashes the table under its
  iterator; in every other case it returns.
\<close>

theorem operation_returns_iff:
  assumes "wf_store s" "eviction_off s" "clock_ok e" "1000 \<le> clock e 0"
  shows "(\<exists>r s'. run_op e op s = Inr (r, s')) \<longleftrightarrow> op_safe e op s"
  using assms by (rule run_op_defined_iff)

theorem operation_returns_iff_witness:
  "(\<nexists>r s'. run_op (frozen 1000) (OpSet ''k'' ''v'' 9223372036854775807) empty_store = Inr (r, s')) \<and>
   (\<exists>r s'. run_op (frozen 1000) (OpSet ''k'' ''v'' 60) empty_store = Inr (r, s'))"
proof -
  have "clock_ok (frozen 1000)" "1000 \<le> clock (frozen 1000) 0" using good_frozen [of 1000] by (simp_all add: good_env_def frozen_def)
  note iff = operation_returns_iff [OF wf_store_empty eviction_off_empty this]
  have "\<not> op_safe (frozen 1000) (OpSet ''k'' ''v'' 9223372036854775807) empty_store"
      "op_safe (frozen 1000) (OpSet ''k'' ''v'' 60) empty_store"
    by (simp_all add: ttl_fits_def frozen_def in_llong_def llong_min_def llong_max_def)
  then show ?thesis unfolding iff by blast
qed

text \<open>
  C16: in any run of operations, under any eviction policy and with any clock, the store stays well
  formed: keys, fields and members are distinct, an object holds the payload of its type only, and
  its time stamps are in range.
\<close>

theorem store_always_wf:
  assumes "\<forall>x\<in>set xs. clock_ok (fst x)" "wf_store s"
  shows "wf_store (run_steps store_step xs s)"
  using assms by (rule store.run_inv)

theorem store_always_wf_witness:
  "wf_store (run_steps store_step [(frozen 5, OpLpush ''l'' [''x'']), (frozen 6, OpSadd ''b'' [''x'', ''x''])] (two_keys TtlPriority))"
  using store_always_wf [of "[(frozen 5, OpLpush ''l'' [''x'']), (frozen 6, OpSadd ''b'' [''x'', ''x''])]", OF _ wf_two_keys]
    good_frozen [of 5] good_frozen [of 6] by (simp add: good_env_def)

definition one_list :: DataStore where
  "one_list = put_key ''l'' (list_object [''x''] 1) empty_store"

lemma wf_one_list: "wf_store one_list"
  by (simp add: one_list_def list_object_def wf_put wf_obj_def wf_payload_def wf_times_def in_llong_def llong_min_def llong_max_def)

definition tight_store :: DataStore where
  "tight_store = (put_key ''a'' (string_object ''1'' 1 (-1) 9) empty_store)\<lparr>evictionConfig :=
     \<lparr>maxKeys = 0, maxMemoryBytes = 210, policy = AllKeysLru\<rparr>\<rparr>"


end
