(* ===== verification/CommandMetadata.thy ===== *)
theory CommandMetadata
  imports CppText
begin

text \<open>
  The table of \<open>src/swiftcache/src/core/CommandMetadata.cpp\<close> that classifies the commands: which
  ones the append-only file records and which ones a read-only server still accepts.
\<close>

datatype CommandCategory = CatRead | CatWrite | CatAdmin | CatPubSub | CatPersistence | CatClient | CatUnknown

record CommandMetadata =
  category :: CommandCategory
  mutatesData :: bool
  appendToAof :: bool
  allowedInReadOnly :: bool

definition default_metadata :: CommandMetadata where
  "default_metadata =
     \<lparr>category = CatUnknown, mutatesData = False, appendToAof = False, allowedInReadOnly = True\<rparr>"

abbreviation read_command :: CommandMetadata where
  "read_command \<equiv> \<lparr>category = CatRead, mutatesData = False, appendToAof = False, allowedInReadOnly = True\<rparr>"

abbreviation write_command :: CommandMetadata where
  "write_command \<equiv> \<lparr>category = CatWrite, mutatesData = True, appendToAof = True, allowedInReadOnly = False\<rparr>"

abbreviation service_command :: "CommandCategory \<Rightarrow> CommandMetadata" where
  "service_command c \<equiv> \<lparr>category = c, mutatesData = False, appendToAof = False, allowedInReadOnly = True\<rparr>"

definition metadataByCommand :: "(string \<times> CommandMetadata) list" where
  "metadataByCommand =
    [(''GET'', read_command), (''EXISTS'', read_command), (''TTL'', read_command),
     (''STRLEN'', read_command), (''MGET'', read_command), (''LRANGE'', read_command),
     (''HGET'', read_command), (''HEXISTS'', read_command), (''HGETALL'', read_command),
     (''SISMEMBER'', read_command), (''SMEMBERS'', read_command), (''SCARD'', read_command),
     (''KEYS'', read_command), (''DBSIZE'', read_command), (''MEMORY'', read_command),
     (''TYPE'', read_command), (''SCAN'', read_command),
     (''SET'', write_command), (''MSET'', write_command), (''DEL'', write_command),
     (''EXPIRE'', write_command), (''PERSIST'', write_command), (''INCR'', write_command),
     (''DECR'', write_command), (''APPEND'', write_command), (''LPUSH'', write_command),
     (''RPUSH'', write_command), (''LPOP'', write_command), (''RPOP'', write_command),
     (''HSET'', write_command), (''HDEL'', write_command), (''SADD'', write_command),
     (''SREM'', write_command), (''RENAME'', write_command), (''MOVE'', write_command),
     (''FLUSHDB'', write_command), (''FLUSHALL'', write_command),
     (''PING'', service_command CatAdmin), (''INFO'', service_command CatAdmin),
     (''AUTH'', service_command CatAdmin), (''READONLY'', service_command CatAdmin),
     (''CONFIG'', service_command CatAdmin), (''COMMAND'', service_command CatAdmin),
     (''SELECT'', service_command CatAdmin),
     (''SAVE'', service_command CatPersistence), (''LASTSAVE'', service_command CatPersistence),
     (''SUBSCRIBE'', service_command CatPubSub), (''UNSUBSCRIBE'', service_command CatPubSub),
     (''PUBLISH'', \<lparr>category = CatPubSub, mutatesData = False, appendToAof = False, allowedInReadOnly = False\<rparr>),
     (''CLIENT'', service_command CatClient)]"

definition commandMetadata_of :: "string \<Rightarrow> CommandMetadata" where
  "commandMetadata_of commandName =
     (case map_of metadataByCommand (toUpper commandName) of None \<Rightarrow> default_metadata | Some md \<Rightarrow> md)"

definition commandMetadata :: "string list \<Rightarrow> CommandMetadata" where
  "commandMetadata ts = (case ts of [] \<Rightarrow> default_metadata | t # _ \<Rightarrow> commandMetadata_of t)"

definition isAofLoggedCommand :: "string list \<Rightarrow> bool" where
  "isAofLoggedCommand ts = appendToAof (commandMetadata ts)"

definition isAllowedInReadOnly :: "string list \<Rightarrow> bool" where
  "isAllowedInReadOnly ts = allowedInReadOnly (commandMetadata ts)"

section \<open>Consistency of the table\<close>

text \<open>
  A command is recorded exactly when it changes data, and then a read-only server refuses it.
\<close>

lemma metadata_entries:
  "md \<in> snd ` set metadataByCommand \<Longrightarrow>
     appendToAof md = mutatesData md \<and> (mutatesData md \<longrightarrow> \<not> allowedInReadOnly md)"
  by (auto simp: metadataByCommand_def)

lemma commandMetadata_entries:
  "appendToAof (commandMetadata ts) = mutatesData (commandMetadata ts) \<and>
     (mutatesData (commandMetadata ts) \<longrightarrow> \<not> allowedInReadOnly (commandMetadata ts))"
proof (cases ts)
  case (Cons t r)
  show ?thesis
  proof (cases "map_of metadataByCommand (toUpper t)")
    case (Some md)
    then have "md \<in> snd ` set metadataByCommand" by (force dest: map_of_SomeD)
    then show ?thesis using metadata_entries by (simp add: commandMetadata_def commandMetadata_of_def Cons Some)
  qed (simp add: commandMetadata_def commandMetadata_of_def Cons default_metadata_def)
qed (simp add: commandMetadata_def default_metadata_def)

lemma logged_not_read_only: "isAofLoggedCommand ts \<Longrightarrow> \<not> isAllowedInReadOnly ts"
  using commandMetadata_entries [of ts] by (simp add: isAofLoggedCommand_def isAllowedInReadOnly_def)

text \<open>The names of the commands that the append-only file records.\<close>

definition logged_names :: "string list" where
  "logged_names = map fst (filter (\<lambda>(n, md). appendToAof md) metadataByCommand)"

lemma isAofLoggedCommand_iff:
  "isAofLoggedCommand ts \<longleftrightarrow> ts \<noteq> [] \<and> toUpper (hd ts) \<in> set logged_names"
proof (cases ts)
  case (Cons t r)
  have d: "distinct_keys metadataByCommand" by (simp add: metadataByCommand_def)
  have "appendToAof (commandMetadata_of t) \<longleftrightarrow> (\<exists>md. (toUpper t, md) \<in> set metadataByCommand \<and> appendToAof md)"
    by (cases "map_of metadataByCommand (toUpper t)")
      (auto simp: commandMetadata_of_def default_metadata_def
        dest: map_of_is_SomeI [OF d] map_of_SomeD)
  also have "\<dots> \<longleftrightarrow> toUpper t \<in> set logged_names" by (force simp: logged_names_def)
  finally show ?thesis by (simp add: Cons isAofLoggedCommand_def commandMetadata_def)
qed (simp add: isAofLoggedCommand_def commandMetadata_def default_metadata_def)

end
