(* ===== verification/ServerMetrics.thy ===== *)
theory ServerMetrics
  imports CppText "HOL-Library.Word"
begin

text \<open>
  The counters of \<open>src/swiftcache/src/core/ServerMetrics.cpp\<close>. Every counter is a
  \<open>std::uint64_t\<close> and wraps around, so it is a 64-bit word. Each operation is one atomic update of
  the counters it touches; \<open>AtomicMetrics\<close> shows that this is right for the compare-and-exchange loop of
  \<open>clientConnected\<close>, which ends with the peak at the larger of the two values.
\<close>

record ServerMetrics =
  connectedClients :: "64 word"
  peakConnectedClients :: "64 word"
  totalCommands :: "64 word"
  rejectedCommands :: "64 word"
  lastSnapshotUnixSeconds :: "64 word"
  counts :: "(string \<times> 64 word) list"

definition initial_metrics :: ServerMetrics where
  "initial_metrics = \<lparr>connectedClients = 0, peakConnectedClients = 0, totalCommands = 0,
     rejectedCommands = 0, lastSnapshotUnixSeconds = 0, counts = []\<rparr>"

definition clientConnected :: "ServerMetrics \<Rightarrow> ServerMetrics" where
  "clientConnected m =
     (let connected = connectedClients m + 1; peak = peakConnectedClients m
      in m\<lparr>connectedClients := connected,
           peakConnectedClients := (if connected > peak then connected else peak)\<rparr>)"

definition clientDisconnected :: "ServerMetrics \<Rightarrow> ServerMetrics" where
  "clientDisconnected m = m\<lparr>connectedClients := connectedClients m - 1\<rparr>"

text \<open>\<open>++commandCounts_[commandName]\<close>: a missing entry starts at zero.\<close>

definition commandExecuted :: "string \<Rightarrow> ServerMetrics \<Rightarrow> ServerMetrics" where
  "commandExecuted commandName m =
     (let n = (case map_of (counts m) commandName of None \<Rightarrow> 0 | Some n \<Rightarrow> n)
      in m\<lparr>totalCommands := totalCommands m + 1,
           counts := AList.update commandName (n + 1) (counts m)\<rparr>)"

definition commandRejected :: "ServerMetrics \<Rightarrow> ServerMetrics" where
  "commandRejected m = m\<lparr>rejectedCommands := rejectedCommands m + 1\<rparr>"

text \<open>The argument is the wall clock in whole seconds.\<close>

definition snapshotSaved :: "int \<Rightarrow> ServerMetrics \<Rightarrow> ServerMetrics" where
  "snapshotSaved seconds m = m\<lparr>lastSnapshotUnixSeconds := word_of_int seconds\<rparr>"

definition commandCounts :: "ServerMetrics \<Rightarrow> (string \<times> 64 word) list" where
  "commandCounts m = sort_key fst (counts m)"

section \<open>Invariants\<close>

text \<open>
  The peak bounds the number of connected clients, and the counts per command add up to the total,
  modulo \<open>2 ^ 64\<close> on both sides.
\<close>

definition metrics_inv :: "ServerMetrics \<Rightarrow> bool" where
  "metrics_inv m \<longleftrightarrow> connectedClients m \<le> peakConnectedClients m \<and>
     distinct_keys (counts m) \<and> sum_list (map snd (counts m)) = totalCommands m"

datatype metrics_event =
    Connected | Disconnected | Executed string | Rejected | SnapshotSaved int

fun metrics_step :: "metrics_event \<Rightarrow> ServerMetrics \<Rightarrow> ServerMetrics" where
  "metrics_step Connected m = clientConnected m"
| "metrics_step Disconnected m = clientDisconnected m"
| "metrics_step (Executed c) m = commandExecuted c m"
| "metrics_step Rejected m = commandRejected m"
| "metrics_step (SnapshotSaved t) m = snapshotSaved t m"

lemma metrics_inv_initial: "metrics_inv initial_metrics"
  by (simp add: metrics_inv_def initial_metrics_def)

lemma sum_list_update:
  fixes v :: "'a::comm_ring_1"
  assumes "distinct_keys m"
  shows "sum_list (map snd (AList.update k v m)) =
    sum_list (map snd m) + v - (case map_of m k of None \<Rightarrow> 0 | Some w \<Rightarrow> w)"
  using assms
proof (induction m)
  case (Cons a m)
  have "map_of m k = None" if "fst a = k" using Cons.prems that by (auto simp: map_of_eq_None_iff)
  then show ?case using Cons by (cases a) (auto simp: algebra_simps)
qed simp

lemma clientDisconnected_inv:
  assumes "metrics_inv m" "connectedClients m \<noteq> 0"
  shows "metrics_inv (clientDisconnected m)"
proof -
  have "connectedClients m - 1 \<le> connectedClients m" using assms(2) by (simp add: less_imp_le measure_unat word_less_nat_alt)
  then show ?thesis using assms(1) by (auto simp: metrics_inv_def clientDisconnected_def)
qed

lemma metrics_step_inv:
  assumes "metrics_inv m" "ev = Disconnected \<Longrightarrow> connectedClients m \<noteq> 0"
  shows "metrics_inv (metrics_step ev m)"
proof (cases ev)
  case (Executed c)
  then show ?thesis using assms(1)
    by (cases "map_of (counts m) c")
      (simp_all add: metrics_inv_def commandExecuted_def Let_def sum_list_update amap.invar_insert)
next
  case Disconnected
  then show ?thesis using assms by (simp add: clientDisconnected_inv)
qed (use assms in \<open>auto simp: metrics_inv_def clientConnected_def commandRejected_def snapshotSaved_def Let_def\<close>)

lemma commandCounts_sorted:
  "metrics_inv m \<Longrightarrow> sorted (map fst (commandCounts m)) \<and> map_of (commandCounts m) = map_of (counts m)"
  by (simp add: commandCounts_def metrics_inv_def map_of_sort_key)

end
