(* ===== verification/Commands.thy ===== *)
theory Commands
  imports StoreRefine CommandMetadata ServerMetrics
begin

text \<open>
  The command objects of \<open>src/swiftcache/src/commands\<close>, one definition per class and named like it,
  and the registry of \<open>src/swiftcache/src/core/CommandRegistry.cpp\<close> that dispatches on the first
  token. A command maps its arguments and the store to a response and the new store; the
  \<open>outcome\<close> is a fault of the store operation it calls. Responses end in a line feed and no
  command closes the connection.
\<close>

record CommandResult =
  response :: string
  closeConnection :: bool

type_synonym command = "env \<Rightarrow> string list \<Rightarrow> DataStore \<Rightarrow> (CommandResult \<times> DataStore) outcome"

definition answer :: "string \<Rightarrow> CommandResult" where
  "answer text = \<lparr>response = text @ [LF], closeConnection = False\<rparr>"

text \<open>The texts built by an output stream, one line per item.\<close>

definition answer_lines :: "string list \<Rightarrow> CommandResult" where
  "answer_lines ls = \<lparr>response = concat (map (\<lambda>l. l @ [LF]) ls), closeConnection = False\<rparr>"

definition wrong_arity :: "string \<Rightarrow> CommandResult" where
  "wrong_arity name = answer (''ERR wrong number of arguments for '' @ name)"

definition wrong_type :: "string \<Rightarrow> CommandResult" where
  "wrong_type name = answer (''ERR wrong type for '' @ name)"

definition flag :: "bool \<Rightarrow> string" where
  "flag b = (if b then ''1'' else ''0'')"

abbreviation nil_text :: string where "nil_text \<equiv> ''(nil)''"

section \<open>String commands\<close>

text \<open>
  The way a command uses a count or a flag that is absent when the key holds another type.
\<close>

definition count_or_wrong :: "string \<Rightarrow> nat option \<Rightarrow> CommandResult" where
  "count_or_wrong name n = (case n of None \<Rightarrow> wrong_type name | Some n \<Rightarrow> answer (show_nat n))"

definition flag_or_wrong :: "string \<Rightarrow> bool option \<Rightarrow> CommandResult" where
  "flag_or_wrong name b = (case b of None \<Rightarrow> wrong_type name | Some b \<Rightarrow> answer (flag b))"

definition AppendCommand :: command where
  "AppendCommand e args s =
     (case args of
        [k, x] \<Rightarrow> and_then (ds_append e k x s) (\<lambda>(len, s'). Inr (count_or_wrong ''APPEND'' len, s'))
      | _ \<Rightarrow> Inr (wrong_arity ''APPEND'', s))"

definition counter_answer :: "int option \<Rightarrow> CommandResult" where
  "counter_answer v = (case v of None \<Rightarrow> answer ''ERR value is not an integer'' | Some i \<Rightarrow> answer (show_int i))"

definition DecrCommand :: command where
  "DecrCommand e args s =
     (case args of
        [k] \<Rightarrow> and_then (ds_incrBy e k (-1) s) (\<lambda>(v, s'). Inr (counter_answer v, s'))
      | _ \<Rightarrow> Inr (wrong_arity ''DECR'', s))"

definition IncrCommand :: command where
  "IncrCommand e args s =
     (case args of
        [k] \<Rightarrow> and_then (ds_incrBy e k 1 s) (\<lambda>(v, s'). Inr (counter_answer v, s'))
      | _ \<Rightarrow> Inr (wrong_arity ''INCR'', s))"

definition DelCommand :: command where
  "DelCommand e args s =
     (case args of
        [k] \<Rightarrow> (let (b, s') = ds_del k s in Inr (answer (flag b), s'))
      | _ \<Rightarrow> Inr (wrong_arity ''DEL'', s))"

definition ExistsCommand :: command where
  "ExistsCommand e args s =
     (case args of
        [k] \<Rightarrow> (let (b, s') = ds_exists e k s in Inr (answer (flag b), s'))
      | _ \<Rightarrow> Inr (wrong_arity ''EXISTS'', s))"

text \<open>A time to live is an integer that uses up the whole argument and is not negative.\<close>

definition parse_ttl :: "string \<Rightarrow> int option" where
  "parse_ttl t = (case parse_ll t of None \<Rightarrow> None | Some n \<Rightarrow> if n < 0 then None else Some n)"

definition ExpireCommand :: command where
  "ExpireCommand e args s =
     (case args of
        [k, t] \<Rightarrow>
          (case parse_ttl t of
             None \<Rightarrow> Inr (answer ''ERR invalid expire time'', s)
           | Some ttlSeconds \<Rightarrow>
               and_then (ds_expire e k ttlSeconds s) (\<lambda>(b, s'). Inr (answer (flag b), s')))
      | _ \<Rightarrow> Inr (wrong_arity ''EXPIRE'', s))"

definition GetCommand :: command where
  "GetCommand e args s =
     (case args of
        [k] \<Rightarrow> (let (v, s') = ds_get e k s
                in Inr (case v of None \<Rightarrow> answer nil_text | Some x \<Rightarrow> answer x, s'))
      | _ \<Rightarrow> Inr (wrong_arity ''GET'', s))"

definition MgetCommand :: command where
  "MgetCommand e args s =
     (if args = [] then Inr (wrong_arity ''MGET'', s)
      else (let (vs, s') = ds_mget e args s
            in Inr (answer_lines (map (\<lambda>v. case v of None \<Rightarrow> nil_text | Some x \<Rightarrow> x) vs), s')))"

fun pairs_of :: "'a list \<Rightarrow> ('a \<times> 'a) list" where
  "pairs_of (k # v # rest) = (k, v) # pairs_of rest"
| "pairs_of _ = []"

definition MsetCommand :: command where
  "MsetCommand e args s =
     (if args = [] \<or> length args mod 2 \<noteq> 0 then Inr (wrong_arity ''MSET'', s)
      else Inr (answer ''OK'', ds_mset e (pairs_of args) s))"

definition PersistCommand :: command where
  "PersistCommand e args s =
     (case args of
        [k] \<Rightarrow> (let (b, s') = ds_persist e k s in Inr (answer (flag b), s'))
      | _ \<Rightarrow> Inr (wrong_arity ''PERSIST'', s))"

definition SetCommand :: command where
  "SetCommand e args s =
     (case args of
        [k, v] \<Rightarrow> and_then (ds_set e k v (-1) s) (\<lambda>s'. Inr (answer ''OK'', s'))
      | [k, v, opt, t] \<Rightarrow>
          if toUpper opt \<noteq> ''EX'' then Inr (answer ''ERR syntax error'', s)
          else (case parse_ttl t of
                  None \<Rightarrow> Inr (answer ''ERR invalid expire time'', s)
                | Some ttlSeconds \<Rightarrow> and_then (ds_set e k v ttlSeconds s) (\<lambda>s'. Inr (answer ''OK'', s')))
      | _ \<Rightarrow> Inr (wrong_arity ''SET'', s))"

definition StrlenCommand :: command where
  "StrlenCommand e args s =
     (case args of
        [k] \<Rightarrow> (let (len, s') = ds_strlen e k s
                in Inr (answer (show_nat (case len of None \<Rightarrow> 0 | Some n \<Rightarrow> n)), s'))
      | _ \<Rightarrow> Inr (wrong_arity ''STRLEN'', s))"

definition TtlCommand :: command where
  "TtlCommand e args s =
     (case args of
        [k] \<Rightarrow> and_then (ds_ttl e k s) (\<lambda>(n, s'). Inr (answer (show_int n), s'))
      | _ \<Rightarrow> Inr (wrong_arity ''TTL'', s))"

section \<open>List commands\<close>

definition pop_answer :: "string \<Rightarrow> ListPopResult \<Rightarrow> CommandResult" where
  "pop_answer name r =
     (case r of
        (WrongType, _) \<Rightarrow> wrong_type name
      | (Missing, _) \<Rightarrow> answer nil_text
      | (Ok, v) \<Rightarrow> answer v)"

definition LpopCommand :: command where
  "LpopCommand e args s =
     (case args of
        [k] \<Rightarrow> (let (r, s') = ds_lpop e k s in Inr (pop_answer ''LPOP'' r, s'))
      | _ \<Rightarrow> Inr (wrong_arity ''LPOP'', s))"

definition RpopCommand :: command where
  "RpopCommand e args s =
     (case args of
        [k] \<Rightarrow> (let (r, s') = ds_rpop e k s in Inr (pop_answer ''RPOP'' r, s'))
      | _ \<Rightarrow> Inr (wrong_arity ''RPOP'', s))"

definition LpushCommand :: command where
  "LpushCommand e args s =
     (case args of
        k # v # vs \<Rightarrow> and_then (ds_lpush e k (v # vs) s) (\<lambda>(n, s'). Inr (count_or_wrong ''LPUSH'' n, s'))
      | _ \<Rightarrow> Inr (wrong_arity ''LPUSH'', s))"

definition RpushCommand :: command where
  "RpushCommand e args s =
     (case args of
        k # v # vs \<Rightarrow> and_then (ds_rpush e k (v # vs) s) (\<lambda>(n, s'). Inr (count_or_wrong ''RPUSH'' n, s'))
      | _ \<Rightarrow> Inr (wrong_arity ''RPUSH'', s))"

definition lines_or_wrong :: "string \<Rightarrow> DataStoreStatus \<times> string list \<Rightarrow> CommandResult" where
  "lines_or_wrong name r = (if fst r = WrongType then wrong_type name else answer_lines (snd r))"

text \<open>The private copy in \<open>LrangeCommand.cpp\<close> of the integer parser of the store.\<close>

definition parseIndex :: "string \<Rightarrow> int option" where
  "parseIndex value =
     (case stoll value of
        None \<Rightarrow> None
      | Some (parsed, consumed) \<Rightarrow> if consumed = length value then Some parsed else None)"

lemma parseIndex_parse_ll [simp]: "parseIndex = parse_ll"
  by (simp add: fun_eq_iff parseIndex_def parse_ll_def)

definition LrangeCommand :: command where
  "LrangeCommand e args s =
     (case args of
        [k, a, b] \<Rightarrow>
          (case (parseIndex a, parseIndex b) of
             (Some start, Some stop) \<Rightarrow>
               (let (r, s') = ds_lrange e k start stop s in Inr (lines_or_wrong ''LRANGE'' r, s'))
           | _ \<Rightarrow> Inr (answer ''ERR invalid range index'', s))
      | _ \<Rightarrow> Inr (wrong_arity ''LRANGE'', s))"

section \<open>Hash commands\<close>

definition HsetCommand :: command where
  "HsetCommand e args s =
     (case args of
        [k, f, v] \<Rightarrow> (let (n, s') = ds_hset e k f v s in Inr (count_or_wrong ''HSET'' n, s'))
      | _ \<Rightarrow> Inr (wrong_arity ''HSET'', s))"

definition HgetCommand :: command where
  "HgetCommand e args s =
     (case args of
        [k, f] \<Rightarrow>
          (let ((status, v), s') = ds_hget e k f s
           in Inr (if status = WrongType then wrong_type ''HGET''
                   else (case v of None \<Rightarrow> answer nil_text | Some x \<Rightarrow> answer x), s'))
      | _ \<Rightarrow> Inr (wrong_arity ''HGET'', s))"

definition HdelCommand :: command where
  "HdelCommand e args s =
     (case args of
        [k, f] \<Rightarrow> (let (n, s') = ds_hdel e k f s in Inr (count_or_wrong ''HDEL'' n, s'))
      | _ \<Rightarrow> Inr (wrong_arity ''HDEL'', s))"

definition HexistsCommand :: command where
  "HexistsCommand e args s =
     (case args of
        [k, f] \<Rightarrow> (let (b, s') = ds_hexists e k f s in Inr (flag_or_wrong ''HEXISTS'' b, s'))
      | _ \<Rightarrow> Inr (wrong_arity ''HEXISTS'', s))"

definition HgetallCommand :: command where
  "HgetallCommand e args s =
     (case args of
        [k] \<Rightarrow>
          (let ((status, fields), s') = ds_hgetall e k s
           in Inr (lines_or_wrong ''HGETALL'' (status, concat (map (\<lambda>(f, v). [f, v]) fields)), s'))
      | _ \<Rightarrow> Inr (wrong_arity ''HGETALL'', s))"

section \<open>Set commands\<close>

definition SaddCommand :: command where
  "SaddCommand e args s =
     (case args of
        k # v # vs \<Rightarrow> (let (n, s') = ds_sadd e k (v # vs) s in Inr (count_or_wrong ''SADD'' n, s'))
      | _ \<Rightarrow> Inr (wrong_arity ''SADD'', s))"

definition SremCommand :: command where
  "SremCommand e args s =
     (case args of
        k # v # vs \<Rightarrow> (let (n, s') = ds_srem e k (v # vs) s in Inr (count_or_wrong ''SREM'' n, s'))
      | _ \<Rightarrow> Inr (wrong_arity ''SREM'', s))"

definition SismemberCommand :: command where
  "SismemberCommand e args s =
     (case args of
        [k, x] \<Rightarrow> (let (b, s') = ds_sismember e k x s in Inr (flag_or_wrong ''SISMEMBER'' b, s'))
      | _ \<Rightarrow> Inr (wrong_arity ''SISMEMBER'', s))"

definition SmembersCommand :: command where
  "SmembersCommand e args s =
     (case args of
        [k] \<Rightarrow> (let (r, s') = ds_smembers e k s in Inr (lines_or_wrong ''SMEMBERS'' r, s'))
      | _ \<Rightarrow> Inr (wrong_arity ''SMEMBERS'', s))"

definition ScardCommand :: command where
  "ScardCommand e args s =
     (case args of
        [k] \<Rightarrow> (let (n, s') = ds_scard e k s in Inr (count_or_wrong ''SCARD'' n, s'))
      | _ \<Rightarrow> Inr (wrong_arity ''SCARD'', s))"

section \<open>Key commands\<close>

definition KeysCommand :: command where
  "KeysCommand e args s =
     (if length args > 1 then Inr (wrong_arity ''KEYS'', s)
      else (let (ks, s') = ds_keys e (case args of [] \<Rightarrow> ''*'' | p # _ \<Rightarrow> p) s
            in Inr (answer_lines ks, s')))"

definition DbsizeCommand :: command where
  "DbsizeCommand e args s =
     (if args \<noteq> [] then Inr (wrong_arity ''DBSIZE'', s)
      else (let (n, s') = ds_dbsize e s in Inr (answer (show_nat n), s')))"

definition MemoryCommand :: command where
  "MemoryCommand e args s =
     (case args of
        [sub, k] \<Rightarrow>
          if toUpper sub \<noteq> ''USAGE'' then Inr (answer ''ERR usage: MEMORY USAGE key'', s)
          else (let (n, s') = ds_memoryUsage e k s
                in Inr (case n of None \<Rightarrow> answer nil_text | Some n \<Rightarrow> answer (show_nat n), s'))
      | _ \<Rightarrow> Inr (answer ''ERR usage: MEMORY USAGE key'', s))"

definition TypeCommand :: command where
  "TypeCommand e args s =
     (case args of
        [k] \<Rightarrow> (let (t, s') = ds_type e k s in Inr (answer t, s'))
      | _ \<Rightarrow> Inr (wrong_arity ''TYPE'', s))"

definition RenameCommand :: command where
  "RenameCommand e args s =
     (case args of
        [a, b] \<Rightarrow>
          and_then (ds_rename e a b s) (\<lambda>(renamed, s').
            Inr (if renamed then answer ''OK'' else answer ''ERR no such key'', s'))
      | _ \<Rightarrow> Inr (wrong_arity ''RENAME'', s))"

definition FlushdbCommand :: command where
  "FlushdbCommand e args s =
     (if args \<noteq> [] then Inr (wrong_arity ''FLUSHDB'', s) else Inr (answer ''OK'', ds_flushdb s))"

definition ScanCommand :: command where
  "ScanCommand e args s =
     (if length args \<noteq> 1 \<and> length args \<noteq> 3 then Inr (wrong_arity ''SCAN'', s)
      else if args ! 0 \<noteq> ''0'' then Inr (answer ''ERR invalid cursor'', s)
      else if length args = 3 \<and> toUpper (args ! 1) \<noteq> ''MATCH'' then Inr (answer ''ERR syntax error'', s)
      else (let (ks, s') = ds_keys e (if length args = 3 then args ! 2 else ''*'') s
            in Inr (answer_lines (''0'' # ks), s')))"

section \<open>System commands\<close>

definition PingCommand :: command where
  "PingCommand e args s =
     (if args \<noteq> [] then Inr (wrong_arity ''PING'', s) else Inr (answer ''PONG'', s))"

text \<open>
  What \<open>INFO\<close> reads besides the store: the counters, the size of the append-only file (zero when
  there is none) and the uptime on the steady clock.
\<close>

record info_sources =
  info_metrics :: ServerMetrics
  info_aof_size :: nat
  info_uptime :: int

definition show_word :: "64 word \<Rightarrow> string" where
  "show_word w = show_nat (unat w)"

fun count_lines :: "(string \<times> 64 word) list \<Rightarrow> string list" where
  "count_lines [] = []"
| "count_lines [(c, n)] = [''  '' @ c @ '': '' @ show_word n]"
| "count_lines ((c, n) # rest) = (''  '' @ c @ '': '' @ show_word n @ '','') # count_lines rest"

definition InfoCommand :: "info_sources \<Rightarrow> command" where
  "InfoCommand src e args s =
     (if args \<noteq> [] then Inr (wrong_arity ''INFO'', s)
      else (let (_, s') = ds_removeExpired e s; st = ds_stats e s'; m = info_metrics src
            in Inr (answer_lines
                 ([''{'',
                   '' totalKeys: '' @ show_nat (stat_keys st) @ '','',
                   '' estimatedBytes: '' @ show_nat (stat_estimatedBytes st) @ '','',
                   '' aofSizeBytes: '' @ show_nat (info_aof_size src) @ '','',
                   '' evictedKeys: '' @ show_nat (stat_evictedKeys st) @ '','',
                   '' expiredKeys: '' @ show_nat (stat_expiredKeys st) @ '','',
                   '' connectedClients: '' @ show_word (connectedClients m) @ '','',
                   '' peakConnectedClients: '' @ show_word (peakConnectedClients m) @ '','',
                   '' totalCommands: '' @ show_word (totalCommands m) @ '','',
                   '' rejectedCommands: '' @ show_word (rejectedCommands m) @ '','',
                   '' lastSnapshotUnixSeconds: '' @ show_word (lastSnapshotUnixSeconds m) @ '','',
                   '' commandCounts: {'']
                  @ count_lines (commandCounts m)
                  @ ['' },'', '' uptimeSeconds: '' @ show_int (info_uptime src), ''}'']), s')))"

section \<open>The registry\<close>

type_synonym CommandRegistry = "(string \<times> command) list"

text \<open>A null pointer is ignored; the name is stored in upper case.\<close>

definition registerCommand :: "(string \<times> command) option \<Rightarrow> CommandRegistry \<Rightarrow> CommandRegistry" where
  "registerCommand c reg =
     (case c of None \<Rightarrow> reg | Some (name, cmd) \<Rightarrow> AList.update (toUpper name) cmd reg)"

definition registry_execute ::
    "CommandRegistry \<Rightarrow> env \<Rightarrow> string list \<Rightarrow> DataStore \<Rightarrow> (CommandResult \<times> DataStore) outcome" where
  "registry_execute reg e ts s =
     (case ts of
        [] \<Rightarrow> Inr (answer ''ERR empty command'', s)
      | name # args \<Rightarrow>
          (case map_of reg (toUpper name) of
             None \<Rightarrow> Inr (answer (''ERR unknown command '' @ [CHR 0x27] @ name @ [CHR 0x27]), s)
           | Some cmd \<Rightarrow> cmd e args s))"

definition command_table :: "info_sources \<Rightarrow> (string \<times> command) list" where
  "command_table src =
    [(''PING'', PingCommand), (''SET'', SetCommand), (''GET'', GetCommand), (''DEL'', DelCommand),
     (''EXISTS'', ExistsCommand), (''EXPIRE'', ExpireCommand), (''TTL'', TtlCommand),
     (''PERSIST'', PersistCommand), (''INCR'', IncrCommand), (''DECR'', DecrCommand),
     (''APPEND'', AppendCommand), (''STRLEN'', StrlenCommand), (''MGET'', MgetCommand),
     (''MSET'', MsetCommand), (''LPUSH'', LpushCommand), (''RPUSH'', RpushCommand),
     (''LPOP'', LpopCommand), (''RPOP'', RpopCommand), (''LRANGE'', LrangeCommand),
     (''HSET'', HsetCommand), (''HGET'', HgetCommand), (''HDEL'', HdelCommand),
     (''HEXISTS'', HexistsCommand), (''HGETALL'', HgetallCommand), (''SADD'', SaddCommand),
     (''SREM'', SremCommand), (''SISMEMBER'', SismemberCommand), (''SMEMBERS'', SmembersCommand),
     (''SCARD'', ScardCommand), (''KEYS'', KeysCommand), (''DBSIZE'', DbsizeCommand),
     (''MEMORY'', MemoryCommand), (''TYPE'', TypeCommand), (''RENAME'', RenameCommand),
     (''FLUSHDB'', FlushdbCommand), (''SCAN'', ScanCommand), (''INFO'', InfoCommand src)]"

definition buildCommandRegistry :: "info_sources \<Rightarrow> CommandRegistry" where
  "buildCommandRegistry src = foldl (\<lambda>reg c. registerCommand (Some c) reg) [] (command_table src)"

end
