(* ===== verification/StoreEvicting.thy ===== *)
theory StoreEvicting
  imports StoreRefine
begin

text \<open>
  Eviction and the specification. An operation of a store with limits does what it does in a store
  without, and then may lose keys: its run is a run of the abstract key space in which each step is
  followed by the removal of some keys, and as long as the counter of evicted keys stands still it
  is a run without losses.
\<close>

section \<open>The store without limits\<close>

definition unlimited :: "DataStore \<Rightarrow> DataStore" where
  "unlimited s = s\<lparr>evictionConfig := default_eviction\<rparr>"

lemma eviction_off_unlimited [simp]: "eviction_off (unlimited s)"
  by (simp add: eviction_off_def unlimited_def default_eviction_def)

lemma find_key_unlimited [simp]: "find_key k (unlimited s) = find_key k s"
  by (simp add: find_key_def unlimited_def)

lemma unlimited_accesses:
  "put_key k obj (unlimited s) = unlimited (put_key k obj s)"
  "erase_key k (unlimited s) = unlimited (erase_key k s)"
  "touch now k obj (unlimited s) = unlimited (touch now k obj s)"
  "ds_flushdb (unlimited s) = unlimited (ds_flushdb s)"
  "store_values (unlimited s) = store_values s"
  by (simp_all add: unlimited_def put_key_def erase_key_def touch_def ds_flushdb_def)

lemma find_live_unlimited: "find_live now k (unlimited s) = map_prod id unlimited (find_live now k s)"
  by (simp add: find_live_def unlimited_accesses split: option.split)

lemma view_unlimited [simp]: "view now (unlimited s) = view now s"
  by (simp add: view_def)

lemma wf_unlimited [simp]: "wf_store (unlimited s) = wf_store s"
  by (simp add: wf_store_def unlimited_def)

lemma mget_loop_unlimited: "mget_loop now ks (unlimited s) = map_prod id unlimited (mget_loop now ks s)"
proof (induction ks arbitrary: s)
  case (Cons k ks)
  have "mget_one now k (unlimited s) = map_prod id unlimited (mget_one now k s)"
    by (simp add: mget_one_def find_live_unlimited unlimited_accesses split: prod.split option.split)
  then show ?case by (simp add: Cons.IH case_prod_beta Let_def)
qed simp

lemma mset_loop_unlimited: "mset_loop now kvs (unlimited s) = unlimited (mset_loop now kvs s)"
  by (induction kvs arbitrary: s) (auto simp: unlimited_accesses)

lemma removeExpired_unlimited: "ds_removeExpired e (unlimited s) = map_prod id unlimited (ds_removeExpired e s)"
  by (simp add: ds_removeExpired_def unlimited_def Let_def live_entries_def)

section \<open>Eviction comes last\<close>

text \<open>
  Every operation does what it does in a store without limits and then runs the eviction loop, if
  at all.
\<close>

definition evicts_last :: "env \<Rightarrow> store_op \<Rightarrow> DataStore \<Rightarrow> bool" where
  "evicts_last e op s \<longleftrightarrow> (\<forall>r s'. run_op e op s = Inr (r, s') \<longrightarrow>
     (\<exists>s0. run_op e op (unlimited s) = Inr (r, unlimited s0) \<and> evictedKeys s0 = evictedKeys s \<and> s' \<in> {s0, evictIfNeeded e s0}))"

lemma keep_counter [simp]:
  "evictedKeys (put_key k obj s) = evictedKeys s" "evictedKeys (erase_key k s) = evictedKeys s"
  "evictedKeys (touch now k obj s) = evictedKeys s" 
  by (simp_all add: put_key_def erase_key_def touch_def)

lemma find_live_counter_cases:
  obtains (absent) s1 where "find_live now k s = (None, s1)" "evictedKeys s1 = evictedKeys s"
  | (present) obj s1 where "find_live now k s = (Some obj, s1)" "evictedKeys s1 = evictedKeys s"
proof (cases "find_live now k s")
  case (Pair x s1)
  then have "evictedKeys s1 = evictedKeys s" by (auto simp: find_live_def split: option.splits if_splits)
  then show thesis using that Pair by (cases x) auto
qed

lemma counter_mget_loop [simp]: "evictedKeys (snd (mget_loop now ks s)) = evictedKeys s"
proof (induction ks arbitrary: s)
  case (Cons k ks)
  have "evictedKeys (snd (mget_one now k s)) = evictedKeys s"
    by (cases rule: find_live_counter_cases [of now k s]) (simp_all add: mget_one_def)
  then show ?case by (simp add: Cons.IH case_prod_beta Let_def)
qed simp

lemma counter_mset_loop [simp]: "evictedKeys (mset_loop now kvs s) = evictedKeys s"
  by (induction kvs arbitrary: s) auto

lemma counter_removeExpired [simp]: "evictedKeys (snd (ds_removeExpired e s)) = evictedKeys s"
  by (simp add: ds_removeExpired_def Let_def)

lemma find_after_eviction: "find_key k (evictIfNeeded e (put_key k obj s)) = Some obj' \<Longrightarrow> obj' = obj"
  by (drule evictIfNeeded_sub) simp

lemmas unlimited_simps = find_live_unlimited unlimited_accesses mget_loop_unlimited mset_loop_unlimited removeExpired_unlimited

lemma last_keptI: "evictedKeys x = n \<Longrightarrow> \<exists>y. unlimited x = unlimited y \<and> evictedKeys y = n \<and> (x = y \<or> x = evictIfNeeded e y)"
  by blast

lemma last_evictedI:
  "evictedKeys x = n \<Longrightarrow> \<exists>y. unlimited x = unlimited y \<and> evictedKeys y = n \<and> (evictIfNeeded e x = y \<or> evictIfNeeded e x = evictIfNeeded e y)"
  by blast

lemmas evicts_simps = evicts_last_def Let_def case_prod_beta unlimited_simps

lemma evicts_lastI:
  assumes "run_op e op s = Inr (r, evictIfNeeded e s0)" "run_op e op (unlimited s) = Inr (r, unlimited s0)"
    and "evictedKeys s0 = evictedKeys s"
  shows "evicts_last e op s"
  using assms unfolding evicts_last_def by (metis Pair_inject insertCI sum.inject(2))

lemma evicts_last_set: "evicts_last e (OpSet k v t) s"
  by (auto simp: evicts_simps ds_set_def intro!: last_evictedI)

lemma evicts_last_expire: "evicts_last e (OpExpire k t) s"
  by (cases rule: find_live_counter_cases [of "clock e 0" k s]; cases "deadline_after (clock e 0) t")
    (auto simp: evicts_simps ds_expire_def intro!: last_keptI)

lemma evicts_last_rename: "evicts_last e (OpRename k b) s"
proof (cases rule: find_live_counter_cases [of "clock e 0" k s])
  case absent
  then show ?thesis by (auto simp: evicts_simps ds_rename_def intro!: last_keptI)
next
  case (present obj s1)
  let ?s0 = "erase_key k (put_key b (obj\<lparr>lastAccessedAt := clock e 1\<rparr>) s1)"
  consider "k = b" | "k \<noteq> b" "find_key b s1 = None \<and> rehashes e (length (store_values s1))"
    | "k \<noteq> b" "\<not> (find_key b s1 = None \<and> rehashes e (length (store_values s1)))" by blast
  then show ?thesis
  proof cases
    case 1
    with present show ?thesis by (simp add: evicts_simps ds_rename_def) (rule last_keptI, simp)
  next
    case 2
    with present show ?thesis by (simp add: evicts_simps ds_rename_def)
  next
    case 3
    have "run_op e (OpRename k b) s = Inr (RepBool True, evictIfNeeded e ?s0)"
      using present 3 by (auto simp: ds_rename_def)
    moreover have "run_op e (OpRename k b) (unlimited s) = Inr (RepBool True, unlimited ?s0)"
      using present 3 by (auto simp: ds_rename_def unlimited_simps)
    moreover have "evictedKeys ?s0 = evictedKeys s" using present by simp
    ultimately show ?thesis by (rule evicts_lastI)
  qed
qed

lemma evicts_last_sweep:
  "evicts_last e (OpKeys p) s" "evicts_last e OpDbsize s" "evicts_last e OpRemoveExpired s"
  by (auto simp: evicts_simps ds_keys_def ds_dbsize_def intro!: last_keptI)

lemma evicts_last_flushdb: "evicts_last e OpFlushdb s"
  by (auto simp: evicts_simps intro!: last_keptI) (simp add: ds_flushdb_def)

lemma evicts_last_many: "evicts_last e (OpMget ks) s" "evicts_last e (OpMset kvs) s" "evicts_last e (OpDel k) s"
  by (auto simp: evicts_simps ds_mget_def ds_mset_def ds_del_def intro!: last_keptI last_evictedI)

fun op_key :: "store_op \<Rightarrow> string" where
  "op_key (OpGet k) = k" | "op_key (OpExists k) = k" | "op_key (OpTtl k) = k" | "op_key (OpPersist k) = k"
| "op_key (OpIncrBy k d) = k" | "op_key (OpAppend k x) = k" | "op_key (OpStrlen k) = k" | "op_key (OpLpush k vs) = k"
| "op_key (OpRpush k vs) = k" | "op_key (OpLpop k) = k" | "op_key (OpRpop k) = k" | "op_key (OpLrange k a b) = k"
| "op_key (OpHset k f v) = k" | "op_key (OpHget k f) = k" | "op_key (OpHdel k f) = k" | "op_key (OpHexists k f) = k"
| "op_key (OpHgetall k) = k" | "op_key (OpSadd k ms) = k" | "op_key (OpSrem k ms) = k" | "op_key (OpSismember k x) = k"
| "op_key (OpSmembers k) = k" | "op_key (OpScard k) = k" | "op_key (OpType k) = k" | "op_key _ = []"

lemmas evicts_last_others = evicts_last_set evicts_last_expire evicts_last_rename evicts_last_sweep evicts_last_flushdb evicts_last_many

lemmas keyed_defs = ds_get_def ds_exists_def ds_ttl_def ds_persist_def ds_incrBy_def ds_append_def ds_strlen_def
  ds_lpush_def ds_rpush_def ds_lpop_def ds_rpop_def ds_lrange_def ds_hset_def ds_hget_def ds_hdel_def ds_hexists_def
  ds_hgetall_def ds_sadd_def ds_srem_def ds_sismember_def ds_smembers_def ds_scard_def ds_type_def

lemma run_op_evicts_last: "evicts_last e op s"
  by (cases rule: find_live_counter_cases [of "clock e 0" "op_key op" s]; cases op;
      simp add: evicts_last_others; 
      auto simp: evicts_simps keyed_defs dest!: find_after_eviction intro!: last_keptI last_evictedI split: option.splits list.splits if_splits)

section \<open>Steps that lose keys\<close>

text \<open>
  A step of the specification after which eviction may have taken keys away, and runs of such
  steps.
\<close>

definition lossy_step :: "int \<Rightarrow> store_op \<Rightarrow> space \<Rightarrow> reply \<Rightarrow> space \<Rightarrow> bool" where
  "lossy_step now op m r m' \<longleftrightarrow> (\<exists>m1. spec_step now op m r m1 \<and> m' \<subseteq>\<^sub>m m1)"

fun lossy_run :: "(env \<times> store_op) list \<Rightarrow> space \<Rightarrow> reply list \<Rightarrow> space \<Rightarrow> bool" where
  "lossy_run [] m rs m' \<longleftrightarrow> rs = [] \<and> m' = m"
| "lossy_run ((e, op) # tr) m [] m' \<longleftrightarrow> False"
| "lossy_run ((e, op) # tr) m (r # rs) m' \<longleftrightarrow>
     (\<exists>m1. lossy_step (clock e 0) op (tick (clock e 0) m) r m1 \<and> lossy_run tr m1 rs m')"

lemma view_evictIfNeeded: "view now (evictIfNeeded e s) \<subseteq>\<^sub>m view now s"
  by (auto simp: map_le_def view_def dom_def dest!: evictIfNeeded_sub split: option.splits if_splits)

text \<open>The counter of evicted keys does not go down, and moves whenever a key is lost.\<close>

lemma evictIfNeeded_counted: "evictIfNeeded e s = s \<or> evictedKeys s < evictedKeys (evictIfNeeded e s)"
proof -
  let ?P = "\<lambda>t. t = s \<or> evictedKeys s < evictedKeys t"
  show ?thesis by (rule evictIfNeeded_rounds [of ?P]) auto
qed

lemma run_op_lossy:
  assumes "wf_store s" "good_env e" "valid_op op" "run_op e op s = Inr (r, s')"
  shows "lossy_step (clock e 0) op (view (clock e 0) s) r (view (clock e 0) s')"
    and "evictedKeys s \<le> evictedKeys s'"
    and "evictedKeys s' = evictedKeys s \<Longrightarrow> spec_step (clock e 0) op (view (clock e 0) s) r (view (clock e 0) s')"
proof -
  obtain s0 where s0: "run_op e op (unlimited s) = Inr (r, unlimited s0)" "evictedKeys s0 = evictedKeys s"
      "s' = s0 \<or> s' = evictIfNeeded e s0"
    using run_op_evicts_last [of e op s] assms(4) by (auto simp: evicts_last_def)
  have step: "spec_step (clock e 0) op (view (clock e 0) s) r (view (clock e 0) s0)"
    using run_op_step(1) [OF _ _ assms(2,3) s0(1)] assms(1) by simp
  show "lossy_step (clock e 0) op (view (clock e 0) s) r (view (clock e 0) s')"
    using step s0(3) view_evictIfNeeded by (auto simp: lossy_step_def)
  show "evictedKeys s \<le> evictedKeys s'" "evictedKeys s' = evictedKeys s \<Longrightarrow> spec_step (clock e 0) op (view (clock e 0) s) r (view (clock e 0) s')"
    using s0(2,3) step evictIfNeeded_counted [of e s0] by auto
qed

lemma run_ops_lossy:
  "wf_store s \<Longrightarrow> timely now tr \<Longrightarrow> run_ops tr s = Inr (rs, s') \<Longrightarrow>
     lossy_run tr (view now s) rs (view (end_time now tr) s') \<and> wf_store s' \<and> evictedKeys s \<le> evictedKeys s' \<and>
     (evictedKeys s' = evictedKeys s \<longrightarrow> spec_run tr (view now s) rs (view (end_time now tr) s'))"
proof (induction tr arbitrary: now s rs)
  case (Cons x tr)
  obtain e op where x: "x = (e, op)" by (cases x)
  from Cons.prems(3) obtain r s1 rs' where r: "run_op e op s = Inr (r, s1)"
      "run_ops tr s1 = Inr (rs', s')" "rs = r # rs'"
    by (auto simp: x)
  have t: "now \<le> clock e 0" "good_env e" "valid_op op" "timely (clock e 0) tr"
    using Cons.prems(2) by (auto simp: x)
  note step = run_op_lossy [OF Cons.prems(1) t(2,3) r(1)]
  have wf: "wf_store s1" using wf_run_op [OF Cons.prems(1) _ r(1)] t(2) by (simp add: good_env_def)
  from Cons.IH [OF wf t(4) r(2)] step show ?case
    by (fastforce simp: x r(3) view_tick [OF t(1)])
qed simp

lemma nonempty_sub: "m \<subseteq>\<^sub>m m' \<Longrightarrow> nonempty_space m' \<Longrightarrow> nonempty_space m"
  by (force simp: nonempty_space_def map_le_def)

section \<open>Properties\<close>

text \<open>
  C2: every run of store operations, with time passing between them and under every eviction policy, is
  a run of the abstract key space: it gives the replies of the specification, and after each step only
  eviction can have removed keys. When the counter of evicted keys has not moved, nothing was removed
  and the store shows exactly the specification's final state. The clock does not run backwards.
\<close>

theorem store_refines_spec:
  assumes "wf_store s" "timely now tr" "run_ops tr s = Inr (rs, s')"
  shows "lossy_run tr (view now s) rs (view (end_time now tr) s') \<and>
    (evictedKeys s' = evictedKeys s \<longrightarrow> spec_run tr (view now s) rs (view (end_time now tr) s'))"
  using run_ops_lossy [OF assms] by blast

definition one_key_store :: DataStore where
  "one_key_store = empty_store\<lparr>evictionConfig := \<lparr>maxKeys = 1, maxMemoryBytes = 0, policy = AllKeysLru\<rparr>\<rparr>"

definition evicting_run :: "(env \<times> store_op) list" where
  "evicting_run = [(frozen 1000, OpSet ''a'' ''1'' (-1)), (frozen 2000, OpSet ''b'' ''2'' (-1)), (frozen 3000, OpGet ''a'')]"

theorem store_refines_spec_witness:
  "(\<exists>s'. run_ops sample_run empty_store = Inr ([RepUnit, RepOptInt (Some 42), RepBool True, RepOptStr None], s') \<and>
     spec_run sample_run (view 0 empty_store) [RepUnit, RepOptInt (Some 42), RepBool True, RepOptStr None] (view 3000 s')) \<and>
   (\<exists>s'. run_ops evicting_run one_key_store = Inr ([RepUnit, RepUnit, RepOptStr None], s') \<and>
     lossy_run evicting_run (view 0 one_key_store) [RepUnit, RepUnit, RepOptStr None] (view 3000 s'))"
proof (intro conjI)
  have r: "run_ops sample_run empty_store = Inr ([RepUnit, RepOptInt (Some 42), RepBool True, RepOptStr None], empty_store)"
    by code_simp
  have t: "timely 0 sample_run" by (simp add: sample_run_def good_frozen frozen_def) (simp_all add: good_frozen flip: frozen_def)
  have "end_time 0 sample_run = 3000" by (simp add: sample_run_def frozen_def)
  then show "\<exists>s'. run_ops sample_run empty_store = Inr ([RepUnit, RepOptInt (Some 42), RepBool True, RepOptStr None], s') \<and>
     spec_run sample_run (view 0 empty_store) [RepUnit, RepOptInt (Some 42), RepBool True, RepOptStr None] (view 3000 s')"
    using store_refines_spec [OF wf_store_empty t r] r by auto
next
  have "case run_ops evicting_run one_key_store of Inr (rs, s') \<Rightarrow> rs = [RepUnit, RepUnit, RepOptStr None] | _ \<Rightarrow> False" by code_simp
  then obtain s' where r: "run_ops evicting_run one_key_store = Inr ([RepUnit, RepUnit, RepOptStr None], s')"
    by (auto split: sum.splits)
  have t: "timely 0 evicting_run" by (simp add: evicting_run_def good_frozen frozen_def) (simp_all add: good_frozen flip: frozen_def)
  have "end_time 0 evicting_run = 3000" "wf_store one_key_store"
    by (simp_all add: evicting_run_def frozen_def one_key_store_def wf_store_def empty_store_def)
  then show "\<exists>s'. run_ops evicting_run one_key_store = Inr ([RepUnit, RepUnit, RepOptStr None], s') \<and>
     lossy_run evicting_run (view 0 one_key_store) [RepUnit, RepUnit, RepOptStr None] (view 3000 s')"
    using store_refines_spec [OF _ t r] r by auto
qed



end
