(* ===== verification/CommandSpec.thy ===== *)
theory CommandSpec
  imports Commands StoreEvicting
begin

text \<open>
  What the commands mean in terms of the specification of the store. Every command of the registry
  except \<open>PING\<close>, \<open>MEMORY\<close> and \<open>INFO\<close> is a grammar, which turns its arguments into one store
  operation or an error, followed by the rendering of the reply. From this follow, for all
  commands at once: dispatch refines the specification, commands that are not recorded leave the
  visible data alone, and a response that reads as an error means that nothing changed (with an
  exception for the pop commands).
\<close>

section \<open>The grammar of the commands\<close>

type_synonym grammar = "string list \<Rightarrow> CommandResult + store_op"

fun one_key :: "string \<Rightarrow> (string \<Rightarrow> store_op) \<Rightarrow> grammar" where
  "one_key n f [k] = Inr (f k)"
| "one_key n f _ = Inl (wrong_arity n)"

fun two_args :: "string \<Rightarrow> (string \<Rightarrow> string \<Rightarrow> store_op) \<Rightarrow> grammar" where
  "two_args n f [a, b] = Inr (f a b)"
| "two_args n f _ = Inl (wrong_arity n)"

fun key_and_more :: "string \<Rightarrow> (string \<Rightarrow> string list \<Rightarrow> store_op) \<Rightarrow> grammar" where
  "key_and_more n f (k # v # vs) = Inr (f k (v # vs))"
| "key_and_more n f _ = Inl (wrong_arity n)"

definition no_args :: "string \<Rightarrow> store_op \<Rightarrow> grammar" where
  "no_args n op args = (if args = [] then Inr op else Inl (wrong_arity n))"

fun set_grammar :: grammar where
  "set_grammar [k, v] = Inr (OpSet k v (-1))"
| "set_grammar [k, v, opt, t] =
     (if toUpper opt \<noteq> ''EX'' then Inl (answer ''ERR syntax error'')
      else (case parse_ttl t of None \<Rightarrow> Inl (answer ''ERR invalid expire time'')
            | Some n \<Rightarrow> Inr (OpSet k v n)))"
| "set_grammar _ = Inl (wrong_arity ''SET'')"

fun expire_grammar :: grammar where
  "expire_grammar [k, t] =
     (case parse_ttl t of None \<Rightarrow> Inl (answer ''ERR invalid expire time'') | Some n \<Rightarrow> Inr (OpExpire k n))"
| "expire_grammar _ = Inl (wrong_arity ''EXPIRE'')"

fun lrange_grammar :: grammar where
  "lrange_grammar [k, a, b] =
     (case (parse_ll a, parse_ll b) of
        (Some i, Some j) \<Rightarrow> Inr (OpLrange k i j)
      | _ \<Rightarrow> Inl (answer ''ERR invalid range index''))"
| "lrange_grammar _ = Inl (wrong_arity ''LRANGE'')"

fun hset_grammar :: grammar where
  "hset_grammar [k, f, v] = Inr (OpHset k f v)"
| "hset_grammar _ = Inl (wrong_arity ''HSET'')"

fun keys_grammar :: grammar where
  "keys_grammar [] = Inr (OpKeys ''*'')"
| "keys_grammar [p] = Inr (OpKeys p)"
| "keys_grammar _ = Inl (wrong_arity ''KEYS'')"

fun scan_grammar :: grammar where
  "scan_grammar [c] = (if c \<noteq> ''0'' then Inl (answer ''ERR invalid cursor'') else Inr (OpKeys ''*''))"
| "scan_grammar [c, m, p] =
     (if c \<noteq> ''0'' then Inl (answer ''ERR invalid cursor'')
      else if toUpper m \<noteq> ''MATCH'' then Inl (answer ''ERR syntax error'') else Inr (OpKeys p))"
| "scan_grammar _ = Inl (wrong_arity ''SCAN'')"

definition mget_grammar :: grammar where
  "mget_grammar args = (if args = [] then Inl (wrong_arity ''MGET'') else Inr (OpMget args))"

definition mset_grammar :: grammar where
  "mset_grammar args =
     (if args = [] \<or> odd (length args) then Inl (wrong_arity ''MSET'') else Inr (OpMset (pairs_of args)))"

text \<open>Every command that is one operation of the store, with the operation its arguments denote.\<close>

definition grammar_table :: "(string \<times> grammar) list" where
  "grammar_table =
    [(''SET'', set_grammar), (''GET'', one_key ''GET'' OpGet), (''DEL'', one_key ''DEL'' OpDel),
     (''EXISTS'', one_key ''EXISTS'' OpExists), (''EXPIRE'', expire_grammar),
     (''TTL'', one_key ''TTL'' OpTtl), (''PERSIST'', one_key ''PERSIST'' OpPersist),
     (''INCR'', one_key ''INCR'' (\<lambda>k. OpIncrBy k 1)), (''DECR'', one_key ''DECR'' (\<lambda>k. OpIncrBy k (-1))),
     (''APPEND'', two_args ''APPEND'' OpAppend), (''STRLEN'', one_key ''STRLEN'' OpStrlen),
     (''MGET'', mget_grammar), (''MSET'', mset_grammar),
     (''LPUSH'', key_and_more ''LPUSH'' OpLpush), (''RPUSH'', key_and_more ''RPUSH'' OpRpush),
     (''LPOP'', one_key ''LPOP'' OpLpop), (''RPOP'', one_key ''RPOP'' OpRpop),
     (''LRANGE'', lrange_grammar), (''HSET'', hset_grammar), (''HGET'', two_args ''HGET'' OpHget),
     (''HDEL'', two_args ''HDEL'' OpHdel), (''HEXISTS'', two_args ''HEXISTS'' OpHexists),
     (''HGETALL'', one_key ''HGETALL'' OpHgetall), (''SADD'', key_and_more ''SADD'' OpSadd),
     (''SREM'', key_and_more ''SREM'' OpSrem), (''SISMEMBER'', two_args ''SISMEMBER'' OpSismember),
     (''SMEMBERS'', one_key ''SMEMBERS'' OpSmembers), (''SCARD'', one_key ''SCARD'' OpScard),
     (''KEYS'', keys_grammar), (''DBSIZE'', no_args ''DBSIZE'' OpDbsize),
     (''TYPE'', one_key ''TYPE'' OpType), (''RENAME'', two_args ''RENAME'' OpRename),
     (''FLUSHDB'', no_args ''FLUSHDB'' OpFlushdb), (''SCAN'', scan_grammar)]"

section \<open>How replies are rendered\<close>

abbreviation text_of :: "string option \<Rightarrow> string" where
  "text_of v \<equiv> (case v of None \<Rightarrow> nil_text | Some x \<Rightarrow> x)"

fun render :: "string \<Rightarrow> reply \<Rightarrow> CommandResult" where
  "render n RepUnit = answer ''OK''"
| "render n (RepBool b) =
     (if n = ''RENAME'' then answer (if b then ''OK'' else ''ERR no such key'') else answer (flag b))"
| "render n (RepInt i) = answer (show_int i)"
| "render n (RepNat i) = answer (show_nat i)"
| "render n (RepStr t) = answer t"
| "render n (RepStrs ks) = answer_lines (if n = ''SCAN'' then ''0'' # ks else ks)"
| "render n (RepOptInt v) = counter_answer v"
| "render n (RepOptNat v) =
     (if n = ''STRLEN'' then answer (show_nat (case v of None \<Rightarrow> 0 | Some i \<Rightarrow> i)) else count_or_wrong n v)"
| "render n (RepOptStr v) = answer (text_of v)"
| "render n (RepOptBool b) = flag_or_wrong n b"
| "render n (RepOptStrs vs) = answer_lines (map text_of vs)"
| "render n (RepPop r) = pop_answer n r"
| "render n (RepRange r) = lines_or_wrong n r"
| "render n (RepHget r) = (if fst r = WrongType then wrong_type n else answer (text_of (snd r)))"
| "render n (RepFields r) = lines_or_wrong n (fst r, concat (map (\<lambda>(f, v). [f, v]) (snd r)))"

definition via_op :: "string \<Rightarrow> grammar \<Rightarrow> command" where
  "via_op n g e args s =
     (case g args of
        Inl c \<Rightarrow> Inr (c, s)
      | Inr op \<Rightarrow> and_then (run_op e op s) (\<lambda>(r, s'). Inr (render n r, s')))"

lemma and_then_assoc: "and_then (and_then m f) g = and_then m (\<lambda>x. and_then (f x) g)"
  by (cases m) auto

lemma list_shapes:
  "one_key n f args = (case args of [k] \<Rightarrow> Inr (f k) | _ \<Rightarrow> Inl (wrong_arity n))"
  "two_args n h args = (case args of [a, b] \<Rightarrow> Inr (h a b) | _ \<Rightarrow> Inl (wrong_arity n))"
  "key_and_more n m args = (case args of k # v # vs \<Rightarrow> Inr (m k (v # vs)) | _ \<Rightarrow> Inl (wrong_arity n))"
  by (auto split: list.splits)

lemmas via_simps = via_op_def list_shapes and_then_assoc case_prod_unfold Let_def

lemma string_commands_via_op:
  "GetCommand = via_op ''GET'' (one_key ''GET'' OpGet)"
  "DelCommand = via_op ''DEL'' (one_key ''DEL'' OpDel)"
  "ExistsCommand = via_op ''EXISTS'' (one_key ''EXISTS'' OpExists)"
  "TtlCommand = via_op ''TTL'' (one_key ''TTL'' OpTtl)"
  "PersistCommand = via_op ''PERSIST'' (one_key ''PERSIST'' OpPersist)"
  "IncrCommand = via_op ''INCR'' (one_key ''INCR'' (\<lambda>k. OpIncrBy k 1))"
  "DecrCommand = via_op ''DECR'' (one_key ''DECR'' (\<lambda>k. OpIncrBy k (-1)))"
  "AppendCommand = via_op ''APPEND'' (two_args ''APPEND'' OpAppend)"
  "StrlenCommand = via_op ''STRLEN'' (one_key ''STRLEN'' OpStrlen)"
  "MgetCommand = via_op ''MGET'' mget_grammar"
  "MsetCommand = via_op ''MSET'' mset_grammar"
  by (intro ext; simp add: via_simps GetCommand_def DelCommand_def ExistsCommand_def TtlCommand_def PersistCommand_def
      IncrCommand_def DecrCommand_def AppendCommand_def StrlenCommand_def MgetCommand_def MsetCommand_def
      mget_grammar_def mset_grammar_def odd_iff_mod_2_eq_one split: list.split option.split)+

lemma set_expire_via_op:
  "SetCommand = via_op ''SET'' set_grammar"
  "ExpireCommand = via_op ''EXPIRE'' expire_grammar"
proof -
  have "SetCommand e args s = via_op ''SET'' set_grammar e args s" for e args s
    by (cases args rule: set_grammar.cases)
      (simp_all add: SetCommand_def via_simps split: option.split)
  then show "SetCommand = via_op ''SET'' set_grammar" by (intro ext)
  have "ExpireCommand e args s = via_op ''EXPIRE'' expire_grammar e args s" for e args s
    by (cases args rule: expire_grammar.cases)
      (simp_all add: ExpireCommand_def via_simps split: option.split)
  then show "ExpireCommand = via_op ''EXPIRE'' expire_grammar" by (intro ext)
qed

lemma collection_commands_via_op:
  "LpushCommand = via_op ''LPUSH'' (key_and_more ''LPUSH'' OpLpush)"
  "RpushCommand = via_op ''RPUSH'' (key_and_more ''RPUSH'' OpRpush)"
  "LpopCommand = via_op ''LPOP'' (one_key ''LPOP'' OpLpop)"
  "RpopCommand = via_op ''RPOP'' (one_key ''RPOP'' OpRpop)"
  "HgetCommand = via_op ''HGET'' (two_args ''HGET'' OpHget)"
  "HdelCommand = via_op ''HDEL'' (two_args ''HDEL'' OpHdel)"
  "HexistsCommand = via_op ''HEXISTS'' (two_args ''HEXISTS'' OpHexists)"
  "HgetallCommand = via_op ''HGETALL'' (one_key ''HGETALL'' OpHgetall)"
  "SaddCommand = via_op ''SADD'' (key_and_more ''SADD'' OpSadd)"
  "SremCommand = via_op ''SREM'' (key_and_more ''SREM'' OpSrem)"
  "SismemberCommand = via_op ''SISMEMBER'' (two_args ''SISMEMBER'' OpSismember)"
  "SmembersCommand = via_op ''SMEMBERS'' (one_key ''SMEMBERS'' OpSmembers)"
  "ScardCommand = via_op ''SCARD'' (one_key ''SCARD'' OpScard)"
  by (intro ext; simp add: via_simps LpushCommand_def RpushCommand_def LpopCommand_def RpopCommand_def
      HgetCommand_def HdelCommand_def HexistsCommand_def HgetallCommand_def SaddCommand_def SremCommand_def
      SismemberCommand_def SmembersCommand_def ScardCommand_def split: list.split option.split)+

lemma shaped_commands_via_op:
  "LrangeCommand = via_op ''LRANGE'' lrange_grammar"
  "HsetCommand = via_op ''HSET'' hset_grammar"
  "KeysCommand = via_op ''KEYS'' keys_grammar"
  "ScanCommand = via_op ''SCAN'' scan_grammar"
proof -
  have "LrangeCommand e args s = via_op ''LRANGE'' lrange_grammar e args s" for e args s
    by (cases args rule: lrange_grammar.cases)
      (simp_all add: LrangeCommand_def via_simps split: option.split)
  then show "LrangeCommand = via_op ''LRANGE'' lrange_grammar" by (intro ext)
  have "HsetCommand e args s = via_op ''HSET'' hset_grammar e args s" for e args s
    by (cases args rule: hset_grammar.cases) (simp_all add: HsetCommand_def via_simps)
  then show "HsetCommand = via_op ''HSET'' hset_grammar" by (intro ext)
  have "KeysCommand e args s = via_op ''KEYS'' keys_grammar e args s" for e args s
    by (cases args rule: keys_grammar.cases) (simp_all add: KeysCommand_def via_simps)
  then show "KeysCommand = via_op ''KEYS'' keys_grammar" by (intro ext)
  have "ScanCommand e args s = via_op ''SCAN'' scan_grammar e args s" for e args s
    by (cases args rule: scan_grammar.cases) (simp_all add: ScanCommand_def via_simps)
  then show "ScanCommand = via_op ''SCAN'' scan_grammar" by (intro ext)
qed

lemma key_commands_via_op:
  "DbsizeCommand = via_op ''DBSIZE'' (no_args ''DBSIZE'' OpDbsize)"
  "TypeCommand = via_op ''TYPE'' (one_key ''TYPE'' OpType)"
  "RenameCommand = via_op ''RENAME'' (two_args ''RENAME'' OpRename)"
  "FlushdbCommand = via_op ''FLUSHDB'' (no_args ''FLUSHDB'' OpFlushdb)"
  by (intro ext; simp add: via_simps DbsizeCommand_def TypeCommand_def RenameCommand_def FlushdbCommand_def
      no_args_def if_distrib [of answer] split: list.split)+

lemmas commands_via_op = string_commands_via_op set_expire_via_op collection_commands_via_op
  shaped_commands_via_op key_commands_via_op

section \<open>Dispatch\<close>

lemma map_of_register_all:
  "distinct_keys cs \<Longrightarrow> \<forall>(n, c)\<in>set cs. toUpper n = n \<Longrightarrow>
     map_of (foldl (\<lambda>reg c. registerCommand (Some c) reg) acc cs) = map_of acc ++ map_of cs"
proof (induction cs arbitrary: acc)
  case (Cons c cs)
  obtain n cmd where c: "c = (n, cmd)" by (cases c)
  have "n \<notin> dom (map_of cs)" using Cons.prems(1) by (simp add: c dom_map_of_conv_image_fst)
  then show ?case using Cons
    by (auto simp: c registerCommand_def amap.find_insert map_add_def fun_eq_iff split: option.splits)
qed simp

lemma distinct_command_table: "distinct_keys (command_table src)"
  by (simp add: command_table_def)

lemma upper_command_table: "\<forall>(n, c)\<in>set (command_table src). toUpper n = n"
  by (simp add: command_table_def toUpper_def toupper_def code_def)

lemma map_of_registry: "map_of (buildCommandRegistry src) = map_of (command_table src)"
  unfolding buildCommandRegistry_def
  using map_of_register_all [OF distinct_command_table upper_command_table, of "[]" src] by simp

lemma registry_lookup:
  "map_of (buildCommandRegistry src) n =
     (case map_of grammar_table n of
        Some g \<Rightarrow> Some (via_op n g)
      | None \<Rightarrow> map_of [(''PING'', PingCommand), (''MEMORY'', MemoryCommand), (''INFO'', InfoCommand src)] n)"
proof (cases "n \<in> set (keys_of (command_table src))")
  case True
  then show ?thesis
    unfolding map_of_registry
    by (auto simp: command_table_def grammar_table_def commands_via_op)
next
  case False
  then have "map_of (command_table src) n = None" by (simp add: map_of_eq_None_iff)
  moreover have "map_of grammar_table n = None" 
    using False by (simp add: command_table_def grammar_table_def)
  ultimately show ?thesis using False unfolding map_of_registry by (simp add: command_table_def)
qed


section \<open>What dispatch guarantees\<close>

text \<open>
  A response of the registry comes from the fixed answers that leave the store alone, from one
  store operation, or from \<open>MEMORY\<close> or \<open>INFO\<close>, which only expire and touch keys.
\<close>

lemma registry_execute_cases:
  assumes "registry_execute (buildCommandRegistry src) e ts s = Inr (res, s')"
  obtains (same) "s' = s"
    | (store_op) name args g op r where "ts = name # args" "map_of grammar_table (toUpper name) = Some g"
        "g args = Inr op" "run_op e op s = Inr (r, s')" "res = render (toUpper name) r"
    | (memory) k where "s' = snd (ds_memoryUsage e k s)"
    | (info) "s' = snd (ds_removeExpired e s)"
proof (cases ts)
  case Nil
  then show ?thesis using assms same by (simp add: registry_execute_def)
next
  case ts: (Cons name args)
  show ?thesis
  proof (cases "map_of grammar_table (toUpper name)")
    case (Some g)
    show ?thesis
    proof (cases "g args")
      case (Inl c)
      then show ?thesis using assms ts Some same by (simp add: registry_execute_def registry_lookup via_op_def)
    next
      case (Inr op)
      then show ?thesis using assms ts Some store_op
        by (auto simp: registry_execute_def registry_lookup via_op_def)
    qed
  next
    case None
    then have "s' = s \<or> (\<exists>k. s' = snd (ds_memoryUsage e k s)) \<or> s' = snd (ds_removeExpired e s)"
      using assms ts
      by (auto simp: registry_execute_def registry_lookup PingCommand_def MemoryCommand_def InfoCommand_def
          Let_def case_prod_unfold split: if_splits list.splits option.splits)
    then show ?thesis using same memory info by blast
  qed
qed

lemma wf_registry_execute:
  assumes "registry_execute (buildCommandRegistry src) e ts s = Inr (res, s')" "wf_store s" "clock_ok e"
  shows "wf_store s'"
  using assms(1)
proof (cases rule: registry_execute_cases)
  case (store_op name args g op r)
  then show ?thesis using assms wf_run_op by blast
qed (use assms in \<open>simp_all add: wf_intros\<close>)

lemma config_registry_execute:
  assumes "registry_execute (buildCommandRegistry src) e ts s = Inr (res, s')"
  shows "evictionConfig s' = evictionConfig s"
  using assms
proof (cases rule: registry_execute_cases)
  case (store_op name args g op r)
  then show ?thesis using config_run_op by blast
qed (simp_all add: ds_memoryUsage_def ds_removeExpired_def Let_def case_prod_unfold split: option.split)

subsection \<open>Commands a read-only server accepts\<close>

fun read_op :: "store_op \<Rightarrow> bool" where
  "read_op (OpGet k) = True"
| "read_op (OpExists k) = True"
| "read_op (OpTtl k) = True"
| "read_op (OpStrlen k) = True"
| "read_op (OpMget ks) = True"
| "read_op (OpLrange k a b) = True"
| "read_op (OpHget k f) = True"
| "read_op (OpHexists k f) = True"
| "read_op (OpHgetall k) = True"
| "read_op (OpSismember k x) = True"
| "read_op (OpSmembers k) = True"
| "read_op (OpScard k) = True"
| "read_op (OpKeys p) = True"
| "read_op OpDbsize = True"
| "read_op (OpType k) = True"
| "read_op _ = False"

lemma read_op_spec: "read_op op \<Longrightarrow> snd (spec_op now op m) = m"
  by (cases op) (auto simp: on_key_def split: option.splits)

lemma read_op_view:
  assumes "read_op op" "wf_store s" "clock_ok e" "run_op e op s = Inr (r, s')"
  shows "view (clock e 0) s' = view (clock e 0) s"
proof -
  have "refines e op s"
    using assms(1-3) by (cases op) (simp_all add: refine_ops)
  then show ?thesis using assms(1,4) by (simp add: refines_def spec_step_def read_op_spec)
qed

definition only_reads :: "grammar \<Rightarrow> bool" where
  "only_reads g \<longleftrightarrow> (\<forall>args op. g args = Inr op \<longrightarrow> read_op op)"

lemma only_reads_shapes [simp]:
  "(\<And>k. read_op (f k)) \<Longrightarrow> only_reads (one_key n f)"
  "(\<And>a b. read_op (h a b)) \<Longrightarrow> only_reads (two_args n h)"
  "read_op op \<Longrightarrow> only_reads (no_args n op)"
  by (auto simp: only_reads_def list_shapes no_args_def split: list.splits if_splits)

lemma only_reads_grammars [simp]:
  "only_reads mget_grammar" "only_reads lrange_grammar" "only_reads keys_grammar" "only_reads scan_grammar"
  by (auto simp: only_reads_def mget_grammar_def split: if_splits option.splits
      elim!: lrange_grammar.elims keys_grammar.elims scan_grammar.elims)

lemma logged_names_eq:
  "logged_names = [''SET'', ''MSET'', ''DEL'', ''EXPIRE'', ''PERSIST'', ''INCR'', ''DECR'', ''APPEND'',
     ''LPUSH'', ''RPUSH'', ''LPOP'', ''RPOP'', ''HSET'', ''HDEL'', ''SADD'', ''SREM'', ''RENAME'',
     ''MOVE'', ''FLUSHDB'', ''FLUSHALL'']"
  by (simp add: logged_names_def metadataByCommand_def)

lemma grammar_reads: "(n, g) \<in> set grammar_table \<Longrightarrow> n \<in> set logged_names \<or> only_reads g"
proof -
  have "\<forall>(n, g)\<in>set grammar_table. n \<in> set logged_names \<or> only_reads g"
    unfolding grammar_table_def logged_names_eq by simp
  then show "(n, g) \<in> set grammar_table \<Longrightarrow> n \<in> set logged_names \<or> only_reads g" by blast
qed

lemma registry_not_logged:
  assumes "registry_execute (buildCommandRegistry src) e ts s = Inr (res, s')"
    and "\<not> isAofLoggedCommand ts" "wf_store s" "clock_ok e"
  shows "view (clock e 0) s' = view (clock e 0) s"
  using assms(1)
proof (cases rule: registry_execute_cases)
  case (store_op name args g op r)
  have "only_reads g"
    using store_op(1,2) assms(2) grammar_reads [OF map_of_SomeD] by (auto simp: isAofLoggedCommand_iff)
  then have "read_op op" using store_op(3) by (auto simp: only_reads_def)
  then show ?thesis by (rule read_op_view [OF _ assms(3,4) store_op(4)])
next
  case (memory k)
  then show ?thesis
    by (cases rule: find_live_view_cases [OF assms(3), of "clock e 0" k])
      (simp_all add: ds_memoryUsage_def view_simps)
qed (use assms in \<open>simp_all add: view_simps view_removeExpired\<close>)


subsection \<open>Error responses\<close>

text \<open>The test by which the program tells a failed command from its response.\<close>

definition is_error :: "string \<Rightarrow> bool" where
  "is_error text = starts_with text ''ERR ''"

fun pop_op :: "store_op \<Rightarrow> bool" where
  "pop_op (OpLpop k) = True"
| "pop_op (OpRpop k) = True"
| "pop_op _ = False"

lemma digits_no_error [simp]: "\<not> is_error (show_nat n @ r)" "\<not> is_error (show_int i @ r)"
proof -
  obtain c cs where "show_nat n = c # cs" "isdigit c" using show_nat_Cons by blast
  then show "\<not> is_error (show_nat n @ r)" by (auto simp: is_error_def isdigit_def code_def)
  obtain c cs where "show_nat (nat i) = c # cs" "isdigit c" using show_nat_Cons by blast
  then show "\<not> is_error (show_int i @ r)" by (auto simp: is_error_def show_int_def isdigit_def code_def)
qed

lemma fixed_no_error [simp]:
  "\<not> is_error (response (answer ''OK''))" "\<not> is_error (response (answer (flag b)))"
  by (auto simp: is_error_def answer_def flag_def)

lemma numbers_no_error [simp]:
  "\<not> is_error (response (answer (show_nat n)))" "\<not> is_error (response (answer (show_int i)))"
  by (simp_all add: answer_def)

lemma error_render_count:
  "is_error (response (count_or_wrong n v)) \<Longrightarrow> v = None"
  "is_error (response (counter_answer i)) \<Longrightarrow> i = None"
  by (auto simp: count_or_wrong_def counter_answer_def split: option.splits)

lemma error_step_unchanged:
  assumes "spec_step now op m r m'" "is_error (response (render n r))" "\<not> pop_op op"
  shows "m' = m"
proof (cases "read_op op")
  case True
  then show ?thesis using assms(1) by (simp add: spec_step_def read_op_spec)
next
  case False
  have upd: "m(k \<mapsto> x) = m" if "m k = Some x" for k x using that by auto
  have del: "m(k := None) = m" if "\<forall>a b. m k \<noteq> Some (a, b)" for k using that by (cases "m k") auto
  show ?thesis
    using False assms
    by (cases op)
      (auto simp: spec_step_def on_key_def upd del split: option.splits if_splits
        dest!: error_render_count)
qed

lemma grammar_valid_op:
  assumes "(n, g) \<in> set grammar_table" "g args = Inr op"
  shows "valid_op op"
proof -
  have "\<forall>(n, g)\<in>set grammar_table. \<forall>args op. g args = Inr op \<longrightarrow> valid_op op"
    unfolding grammar_table_def
    by (auto simp: list_shapes no_args_def mget_grammar_def mset_grammar_def parse_ttl_def
        elim!: set_grammar.elims expire_grammar.elims lrange_grammar.elims hset_grammar.elims keys_grammar.elims
          scan_grammar.elims
        split: list.splits if_splits option.splits)
  then show ?thesis using assms by blast
qed

lemma grammar_adds_something:
  assumes "(n, g) \<in> set grammar_table" "g args = Inr op"
  shows "adds_something op"
proof -
  have "\<forall>(n, g)\<in>set grammar_table. \<forall>args op. g args = Inr op \<longrightarrow> adds_something op"
    unfolding grammar_table_def
    by (auto simp: list_shapes no_args_def mget_grammar_def mset_grammar_def
        elim!: set_grammar.elims expire_grammar.elims lrange_grammar.elims hset_grammar.elims keys_grammar.elims
          scan_grammar.elims
        split: list.splits if_splits option.splits)
  then show ?thesis using assms by blast
qed

lemma registry_refines:
  assumes "registry_execute (buildCommandRegistry src) e (name # args) s = Inr (res, s')"
    and "map_of grammar_table (toUpper name) = Some g" "g args = Inr op"
    and "wf_store s" "eviction_off s" "good_env e"
  shows "\<exists>r. spec_step (clock e 0) op (view (clock e 0) s) r (view (clock e 0) s') \<and>
    res = render (toUpper name) r"
proof -
  obtain r where r: "run_op e op s = Inr (r, s')" "res = render (toUpper name) r"
    using assms(1-3) by (auto simp: registry_execute_def registry_lookup via_op_def)
  have "valid_op op" using grammar_valid_op [OF map_of_SomeD [OF assms(2)] assms(3)] .
  then show ?thesis using run_op_step(1) [OF assms(4-6) _ r(1)] r(2) by blast
qed

lemma registry_lossy:
  assumes "registry_execute (buildCommandRegistry src) e (name # args) s = Inr (res, s')"
    and "map_of grammar_table (toUpper name) = Some g" "g args = Inr op"
    and "wf_store s" "good_env e"
  shows "\<exists>r. lossy_step (clock e 0) op (view (clock e 0) s) r (view (clock e 0) s') \<and>
    (evictedKeys s' = evictedKeys s \<longrightarrow> spec_step (clock e 0) op (view (clock e 0) s) r (view (clock e 0) s')) \<and>
    res = render (toUpper name) r"
proof -
  obtain r where r: "run_op e op s = Inr (r, s')" "res = render (toUpper name) r"
    using assms(1-3) by (auto simp: registry_execute_def registry_lookup via_op_def)
  have "valid_op op" using grammar_valid_op [OF map_of_SomeD [OF assms(2)] assms(3)] .
  from run_op_lossy [OF assms(4,5) this r(1)] r(2) show ?thesis by blast
qed

lemma registry_grammar_error:
  assumes "map_of grammar_table (toUpper name) = Some g" "g args = Inl c"
  shows "registry_execute (buildCommandRegistry src) e (name # args) s = Inr (c, s)"
  using assms by (simp add: registry_execute_def registry_lookup via_op_def)

text \<open>
  A response that reads as an error means that nothing changed; for \<open>LPOP\<close> and \<open>RPOP\<close> this fails,
  because the popped element itself can read as an error.
\<close>

lemma pop_names:
  assumes "(n, g) \<in> set grammar_table" "g args = Inr op" "pop_op op"
  shows "n = ''LPOP'' \<or> n = ''RPOP''"
proof -
  have "\<forall>(n, g)\<in>set grammar_table. \<forall>args op. g args = Inr op \<longrightarrow> pop_op op \<longrightarrow> n = ''LPOP'' \<or> n = ''RPOP''"
    unfolding grammar_table_def
    by (auto simp: list_shapes no_args_def mget_grammar_def mset_grammar_def
        elim!: set_grammar.elims expire_grammar.elims lrange_grammar.elims hset_grammar.elims keys_grammar.elims
          scan_grammar.elims
        split: list.splits if_splits option.splits)
  then show ?thesis using assms by blast
qed

lemma registry_error_unchanged:
  assumes exec: "registry_execute (buildCommandRegistry src) e ts s = Inr (res, s')"
    and "wf_store s" "eviction_off s" "good_env e" "is_error (response res)"
    and "toUpper (hd ts) \<noteq> ''LPOP''" "toUpper (hd ts) \<noteq> ''RPOP''"
  shows "view (clock e 0) s' = view (clock e 0) s"
proof (cases "isAofLoggedCommand ts")
  case False
  then show ?thesis using exec assms(2,4) by (simp add: registry_not_logged good_env_def)
next
  case True
  from exec show ?thesis
  proof (cases rule: registry_execute_cases)
    case (store_op name args g op r)
    then obtain r' where r': "spec_step (clock e 0) op (view (clock e 0) s) r' (view (clock e 0) s')"
        "res = render (toUpper name) r'"
      using registry_refines [OF exec [unfolded store_op(1)] store_op(2,3) assms(2-4)] by blast
    have "\<not> pop_op op"
      using pop_names [OF map_of_SomeD [OF store_op(2)] store_op(3)] assms(6,7) store_op(1) by auto
    then show ?thesis using error_step_unchanged [OF r'(1)] assms(5) r'(2) by blast
  next
    case (memory k)
    then show ?thesis
      by (cases rule: find_live_view_cases [OF assms(2), of "clock e 0" k])
        (simp_all add: ds_memoryUsage_def view_simps)
  qed (use assms in \<open>simp_all add: view_removeExpired\<close>)
qed

section \<open>The registry as a machine\<close>

definition registry_step :: "info_sources \<Rightarrow> env \<times> string list \<Rightarrow> DataStore \<Rightarrow> DataStore" where
  "registry_step src x s =
     (case registry_execute (buildCommandRegistry src) (fst x) (snd x) s of Inl f \<Rightarrow> s | Inr (res, s') \<Rightarrow> s')"

interpretation registry: machine "registry_step src" "\<lambda>x. clock_ok (fst x)" wf_store for src
  by unfold_locales (auto simp: registry_step_def dest: wf_registry_execute split: sum.splits)

section \<open>Properties\<close>

text \<open>
  C6: a command of the registry does what its grammar says: the arguments are read as one store
  operation, the store steps as the specification of that operation, up to keys that eviction removes,
  and the response is its reply rendered. When the counter of evicted keys has not moved, the step is
  exactly the specification's.
\<close>

theorem dispatch_refines_spec:
  assumes "registry_execute (buildCommandRegistry src) e (name # args) s = Inr (res, s')"
    and "map_of grammar_table (toUpper name) = Some g" "g args = Inr op"
    and "wf_store s" "good_env e"
  shows "\<exists>r. lossy_step (clock e 0) op (view (clock e 0) s) r (view (clock e 0) s') \<and>
    (evictedKeys s' = evictedKeys s \<longrightarrow> spec_step (clock e 0) op (view (clock e 0) s) r (view (clock e 0) s')) \<and>
    res = render (toUpper name) r"
  using assms by (rule registry_lossy)

definition no_info :: info_sources where
  "no_info = \<lparr>info_metrics = initial_metrics, info_aof_size = 0, info_uptime = 0\<rparr>"

theorem dispatch_refines_spec_witness:
  "\<exists>s' r. registry_execute (buildCommandRegistry no_info) (frozen 9) [''rPush'', ''l'', ''x'', ''y''] empty_store = Inr (answer ''2'', s') \<and>
     spec_step 9 (OpRpush ''l'' [''x'', ''y'']) (view 9 empty_store) r (view 9 s') \<and> answer ''2'' = render ''RPUSH'' r"
proof -
  let ?s' = "put_key ''l'' (list_object [''x'', ''y''] 9) empty_store"
  have x: "registry_execute (buildCommandRegistry no_info) (frozen 9) [''rPush'', ''l'', ''x'', ''y''] empty_store = Inr (answer ''2'', ?s')"
    by code_simp
  have up: "toUpper ''rPush'' = ''RPUSH''" by code_simp
  have g: "map_of grammar_table (toUpper ''rPush'') = Some (key_and_more ''RPUSH'' OpRpush)"
    by (simp add: up grammar_table_def)
  from dispatch_refines_spec [OF x g _ wf_store_empty good_frozen] x up show ?thesis
    by (auto simp: frozen_def)
qed

text \<open>
  C11: a command that the append-only file does not record leaves every live key, value and
  deadline as it was.
\<close>

theorem unlogged_command_reads_only:
  assumes "registry_execute (buildCommandRegistry src) e ts s = Inr (res, s')"
    and "\<not> isAofLoggedCommand ts" "wf_store s" "clock_ok e"
  shows "view (clock e 0) s' = view (clock e 0) s"
  using assms by (rule registry_not_logged)

theorem unlogged_command_reads_only_witness:
  "\<exists>s'. registry_execute (buildCommandRegistry no_info) (frozen 9) [''get'', ''a''] (two_keys AllKeysLru) = Inr (answer ''1'', s') \<and>
     view 9 s' = view 9 (two_keys AllKeysLru)"
proof -
  have "\<exists>s'. registry_execute (buildCommandRegistry no_info) (frozen 9) [''get'', ''a''] (two_keys AllKeysLru) = Inr (answer ''1'', s')"
    by (rule exI [of _ "snd (ds_get (frozen 9) ''a'' (two_keys AllKeysLru))"]) code_simp
  then obtain s' where x: "registry_execute (buildCommandRegistry no_info) (frozen 9) [''get'', ''a''] (two_keys AllKeysLru) = Inr (answer ''1'', s')"
    by blast
  moreover have "\<not> isAofLoggedCommand [''get'', ''a'']" by code_simp
  moreover have "clock_ok (frozen 9)" using good_frozen [of 9] by (simp add: good_env_def)
  ultimately have "view (clock (frozen 9) 0) s' = view (clock (frozen 9) 0) (two_keys AllKeysLru)"
    using unlogged_command_reads_only wf_two_keys by blast
  then show ?thesis using x by (auto simp: frozen_def)
qed



end
