(* ===== verification/CommandParser.thy ===== *)
theory CommandParser
  imports CppText
begin

text \<open>
  The request parser, \<open>src/swiftcache/src/parser/CommandParser.cpp\<close>, and the encoder of RESP
  commands used by the append-only file. The parser works with offsets into the connection's
  buffer, as the source does. The call \<open>parsed.reserve(elementCount)\<close> throws when the allocator
  refuses the request; which counts it accepts is the argument \<open>reserve_ok\<close>. An offset plus a
  length below \<open>2 ^ 63\<close> cannot wrap around in a 64-bit \<open>size_t\<close>, so offsets are natural numbers.
\<close>

section \<open>Lines holding an integer\<close>

fun find_crlf :: "string \<Rightarrow> nat option" where
  "find_crlf (c # d # s) = (if c = CR \<and> d = LF then Some 0 else map_option Suc (find_crlf (d # s)))"
| "find_crlf s = None"

text \<open>
  \<open>*end != 0\<close> looks at the character after the number: at the end of the string it is the
  terminator, and an embedded NUL byte is taken for one.
\<close>

definition parseIntegerLine :: "string \<Rightarrow> nat \<Rightarrow> (int \<times> nat) option" where
  "parseIntegerLine buffer offset =
     (case find_crlf (drop offset buffer) of
        None \<Rightarrow> None
      | Some n \<Rightarrow>
          let raw = take n (drop offset buffer);
              (v, used) = strtoll raw
          in Some (if used = 0 \<or> (used < length raw \<and> raw ! used \<noteq> CHR 0x00) then -1 else v,
                   offset + n + 2))"

section \<open>Requests\<close>

datatype RequestProtocol = Inline | Resp

record ParsedCommand =
  tokens :: "string list"
  protocol :: RequestProtocol

definition parse :: "string \<Rightarrow> string list" where
  "parse line = split_words line"

datatype frame = NeedMore | Frame nat "string list"

text \<open>The element loop of \<open>parseRespFrame\<close>; \<open>n\<close> elements are still to come.\<close>

fun parseElements :: "string \<Rightarrow> nat \<Rightarrow> nat \<Rightarrow> string list \<Rightarrow> frame" where
  "parseElements buffer 0 offset parsed = Frame offset parsed"
| "parseElements buffer (Suc n) offset parsed =
     (if offset \<ge> length buffer then NeedMore
      else if buffer ! offset \<noteq> CHR ''$'' then Frame (offset + 1) []
      else (case parseIntegerLine buffer (offset + 1) of
              None \<Rightarrow> NeedMore
            | Some (bulkLength, off) \<Rightarrow>
                if bulkLength < 0 then parseElements buffer n off (parsed @ [[]])
                else let len = nat bulkLength in
                  if length buffer < off + len + 2 then NeedMore
                  else if buffer ! (off + len) \<noteq> CR \<or> buffer ! (off + len + 1) \<noteq> LF
                  then Frame (off + len) []
                  else parseElements buffer n (off + len + 2) (parsed @ [take len (drop off buffer)])))"

definition parseRespFrame :: "(nat \<Rightarrow> bool) \<Rightarrow> string \<Rightarrow> frame outcome" where
  "parseRespFrame reserve_ok buffer =
     (case parseIntegerLine buffer 1 of
        None \<Rightarrow> Inr NeedMore
      | Some (elementCount, off) \<Rightarrow>
          if elementCount < 0 then Inr (Frame off [])
          else if \<not> reserve_ok (nat elementCount) then Inl AllocationFailure
          else Inr (parseElements buffer (nat elementCount) off []))"

section \<open>A decided frame stays decided\<close>

lemma find_crlf_append:
  "find_crlf a = Some n \<Longrightarrow> find_crlf (a @ b) = Some n \<and> n + 2 \<le> length a"
proof (induction a arbitrary: n rule: find_crlf.induct)
  case (1 c d s)
  show ?case
  proof (cases "c = CR \<and> d = LF")
    case False
    with "1.prems" obtain m where m: "find_crlf (d # s) = Some m" "n = Suc m" by auto
    with "1.IH" [OF False m(1)] show ?thesis using False by auto
  qed (use "1.prems" in auto)
qed simp_all

lemma parseIntegerLine_append:
  assumes "parseIntegerLine a off = Some (v, off')"
  shows "parseIntegerLine (a @ b) off = Some (v, off')" "off + 2 \<le> off'" "off' \<le> length a"
proof -
  obtain n where n: "find_crlf (drop off a) = Some n" "off' = off + n + 2"
    using assms by (auto simp: parseIntegerLine_def Let_def split: option.splits prod.splits)
  have le: "n + 2 \<le> length (drop off a)" and f: "find_crlf (drop off a @ drop (off - length a) b) = Some n"
    using find_crlf_append [OF n(1)] by auto
  then have "off \<le> length a" by auto
  then show "off + 2 \<le> off'" "off' \<le> length a" using n le by auto
  have "take n (drop off (a @ b)) = take n (drop off a)" "find_crlf (drop off (a @ b)) = Some n"
    using le f by simp_all
  then show "parseIntegerLine (a @ b) off = Some (v, off')"
    using assms n(1) unfolding parseIntegerLine_def by (simp only: option.case)
qed

lemma parseElements_append:
  "parseElements a n off acc = Frame used ts \<Longrightarrow> 0 < off \<Longrightarrow> off \<le> length a \<Longrightarrow>
     parseElements (a @ b) n off acc = Frame used ts \<and> 0 < used \<and> used \<le> length a"
proof (induction a n off acc rule: parseElements.induct)
  case (2 buffer n offset parsed)
  have off: "offset < length buffer" using "2.prems"(1) by (auto split: if_splits)
  show ?case
  proof (cases "buffer ! offset = CHR ''$''")
    case False
    then show ?thesis using off "2.prems" by (auto simp: nth_append)
  next
    case True
    then obtain v o' where line: "parseIntegerLine buffer (offset + 1) = Some (v, o')"
      using "2.prems"(1) off by (auto split: option.splits)
    note ext = parseIntegerLine_append [OF line]
    show ?thesis
    proof (cases "v < 0")
      case True
      then show ?thesis
        using "2.IH"(1) [OF _ _ line refl] "2.prems"(1) off line ext \<open>buffer ! offset = CHR ''$''\<close>
        by (auto simp: nth_append)
    next
      case False
      then have size: "o' + nat v + 2 \<le> length buffer"
        using "2.prems"(1) off line \<open>buffer ! offset = CHR ''$''\<close> by (auto simp: Let_def split: if_splits)
      have nths: "(buffer @ b) ! (o' + nat v) = buffer ! (o' + nat v)"
        "(buffer @ b) ! Suc (o' + nat v) = buffer ! Suc (o' + nat v)"
        using size by (auto simp: nth_append)
      show ?thesis
      proof (cases "buffer ! (o' + nat v) \<noteq> CR \<or> buffer ! (o' + nat v + 1) \<noteq> LF")
        case True
        then show ?thesis
          using "2.prems"(1) False off line ext size nths \<open>buffer ! offset = CHR ''$''\<close>
          by (auto simp: nth_append [of buffer b offset])
      next
        case ok: False
        then show ?thesis
          using "2.IH"(2) [OF _ _ line refl False refl] "2.prems"(1) False off line ext size nths
            \<open>buffer ! offset = CHR ''$''\<close>
          by (auto simp: nth_append [of buffer b offset] Let_def)
      qed
    qed
  qed
qed auto

lemma parseRespFrame_append:
  assumes "parseRespFrame ok a = Inr (Frame used ts)"
  shows "parseRespFrame ok (a @ b) = Inr (Frame used ts)" "0 < used" "used \<le> length a"
proof -
  obtain v off where line: "parseIntegerLine a 1 = Some (v, off)"
    using assms by (auto simp: parseRespFrame_def split: option.splits)
  note ext = parseIntegerLine_append [OF line]
  have "parseRespFrame ok (a @ b) = Inr (Frame used ts) \<and> 0 < used \<and> used \<le> length a"
    using assms line ext parseElements_append [of a "nat v" off "[]" used ts b]
    by (auto simp: parseRespFrame_def split: if_splits)
  then show "parseRespFrame ok (a @ b) = Inr (Frame used ts)" "0 < used" "used \<le> length a" by auto
qed

lemma parseRespFrame_fault_append:
  "parseRespFrame ok a = Inl f \<Longrightarrow> parseRespFrame ok (a @ b) = Inl f"
  by (cases "parseIntegerLine a 1")
    (auto simp: parseRespFrame_def parseIntegerLine_append(1) split: if_splits)

section \<open>Draining the buffer\<close>

abbreviation emit :: "ParsedCommand \<Rightarrow> (ParsedCommand list \<times> string) outcome \<Rightarrow> (ParsedCommand list \<times> string) outcome" where
  "emit c m \<equiv> and_then m (\<lambda>(cs, r). Inr (c # cs, r))"

lemma take_line_shorter: "buffer \<noteq> [] \<Longrightarrow> length (snd (take_line buffer)) < length buffer"
  using getline_length [of buffer "fst (take_line buffer)" "snd (take_line buffer)"]
  by (simp add: getline_def)

function parseAvailable :: "(nat \<Rightarrow> bool) \<Rightarrow> string \<Rightarrow> (ParsedCommand list \<times> string) outcome" where
  "parseAvailable ok buffer =
     (if buffer = [] then Inr ([], buffer)
      else if hd buffer = CHR ''*'' then
        (case parseRespFrame ok buffer of
           Inl f \<Rightarrow> Inl f
         | Inr NeedMore \<Rightarrow> Inr ([], buffer)
         | Inr (Frame used ts) \<Rightarrow>
             emit \<lparr>tokens = ts, protocol = Resp\<rparr> (parseAvailable ok (drop used buffer)))
      else if LF \<notin> set buffer then Inr ([], buffer)
      else
        let (l, rest) = take_line buffer;
            line = trimLineEnding (l @ [LF])
        in if line \<noteq> []
           then emit \<lparr>tokens = parse line, protocol = Inline\<rparr> (parseAvailable ok rest)
           else parseAvailable ok rest)"
  by pat_completeness auto

termination
  by (relation "measure (\<lambda>(ok, buffer). length buffer)")
    (auto dest: parseRespFrame_append(2) take_line_shorter simp: prod_eq_iff)

declare parseAvailable.simps [simp del]

section \<open>Reading in chunks\<close>

definition continue_with :: "(nat \<Rightarrow> bool) \<Rightarrow> string \<Rightarrow> (ParsedCommand list \<times> string) outcome \<Rightarrow> (ParsedCommand list \<times> string) outcome" where
  "continue_with ok b m =
     and_then m (\<lambda>(cs, r). and_then (parseAvailable ok (r @ b)) (\<lambda>(cs', r'). Inr (cs @ cs', r')))"

lemma continue_with_emit: "continue_with ok b (emit c m) = emit c (continue_with ok b m)"
proof (cases m)
  case (Inr x)
  obtain cs r where x: "x = (cs, r)" by (cases x)
  show ?thesis by (cases "parseAvailable ok (r @ b)") (auto simp: continue_with_def Inr x)
qed (simp add: continue_with_def)

lemma continue_with_Nil: "continue_with ok b (Inr ([], r)) = parseAvailable ok (r @ b)"
  by (cases "parseAvailable ok (r @ b)") (auto simp: continue_with_def)

lemma take_line_append_LF:
  "LF \<in> set a \<Longrightarrow> take_line (a @ b) = (fst (take_line a), snd (take_line a) @ b)"
  by (induction a) (auto simp: Let_def case_prod_beta)

lemma parseAvailable_append:
  "parseAvailable ok (a @ b) = continue_with ok b (parseAvailable ok a)"
proof (induction ok a rule: parseAvailable.induct)
  case (1 ok a)
  note eq = parseAvailable.simps [of ok a] and eqb = parseAvailable.simps [of ok "a @ b"]
  show ?case
  proof (cases "a = []")
    case True
    then show ?thesis by (simp add: parseAvailable.simps [of ok "[]"] continue_with_Nil)
  next
    case ne: False
    show ?thesis
    proof (cases "hd a = CHR ''*''")
      case True
      show ?thesis
      proof (cases "parseRespFrame ok a")
        case (Inl f)
        then show ?thesis using ne True by (simp add: eq eqb parseRespFrame_fault_append continue_with_def)
      next
        case (Inr fr)
        show ?thesis
        proof (cases fr)
          case NeedMore
          then show ?thesis using ne True Inr by (simp add: eq continue_with_Nil)
        next
          case (Frame used ts)
          note fr = parseRespFrame_append [OF Inr [unfolded Frame]]
          have IH: "parseAvailable ok (drop used a @ b) = continue_with ok b (parseAvailable ok (drop used a))"
            using "1.IH"(1) [OF ne True Inr Frame] .
          show ?thesis
            using ne True Inr Frame fr IH by (simp add: eq eqb continue_with_emit)
        qed
      qed
    next
      case inline: False
      show ?thesis
      proof (cases "LF \<in> set a")
        case False
        then show ?thesis using ne inline by (simp add: eq continue_with_Nil)
      next
        case True
        obtain l rest where l: "take_line a = (l, rest)" by fastforce
        let ?line = "trimLineEnding (l @ [LF])"
        have lb: "take_line (a @ b) = (l, rest @ b)" using take_line_append_LF [OF True] l by simp
        have IH: "parseAvailable ok (rest @ b) = continue_with ok b (parseAvailable ok rest)"
          using "1.IH"(2,3) [OF ne inline _ l [symmetric] refl refl] True by blast
        show ?thesis using ne inline True l lb IH by (simp add: eq eqb continue_with_emit Let_def)
      qed
    qed
  qed
qed


text \<open>
  The receive loop of a connection: every chunk is appended to the buffer, and what can be parsed
  is taken off its front.
\<close>

fun feed :: "(nat \<Rightarrow> bool) \<Rightarrow> string list \<Rightarrow> string \<Rightarrow> (ParsedCommand list \<times> string) outcome" where
  "feed ok [] buffer = Inr ([], buffer)"
| "feed ok (chunk # chunks) buffer =
     and_then (parseAvailable ok (buffer @ chunk)) (\<lambda>(cs, r).
     and_then (feed ok chunks r) (\<lambda>(cs', r'). Inr (cs @ cs', r')))"

lemma parseAvailable_feed:
  "parseAvailable ok (a @ concat chunks) =
     and_then (parseAvailable ok a) (\<lambda>(cs, r).
     and_then (feed ok chunks r) (\<lambda>(cs', r'). Inr (cs @ cs', r')))"
proof (induction chunks arbitrary: a)
  case Nil
  show ?case by (cases "parseAvailable ok a") auto
next
  case (Cons x chunks)
  have "parseAvailable ok (a @ concat (x # chunks)) = parseAvailable ok ((a @ x) @ concat chunks)" by simp
  also have "\<dots> = and_then (continue_with ok x (parseAvailable ok a)) (\<lambda>(cs, r).
     and_then (feed ok chunks r) (\<lambda>(cs', r'). Inr (cs @ cs', r')))"
    by (simp only: Cons.IH parseAvailable_append [of ok a x])
  finally show ?case
  proof (cases "parseAvailable ok a")
    case (Inr y)
    obtain cs r where y: "y = (cs, r)" by (cases y)
    show ?thesis
    proof (cases "parseAvailable ok (r @ x)")
      case (Inr z)
      obtain cs1 r1 where z: "z = (cs1, r1)" by (cases z)
      show ?thesis
        using Cons.IH [of "a @ x"] parseAvailable_append [of ok a x] \<open>parseAvailable ok a = Inr y\<close> Inr y z
        by (cases "feed ok chunks r1") (auto simp: continue_with_def)
    qed (use Cons.IH [of "a @ x"] parseAvailable_append [of ok a x] Inr y in \<open>auto simp: continue_with_def\<close>)
  qed (use Cons.IH [of "a @ x"] parseAvailable_append [of ok a x] in \<open>auto simp: continue_with_def\<close>)
qed

lemma feed_concat: "feed ok chunks [] = parseAvailable ok (concat chunks)"
  using parseAvailable_feed [of ok "[]" chunks]
  by (cases "feed ok chunks []") (auto simp: parseAvailable.simps [of ok "[]"])

section \<open>Encoded commands\<close>

definition encode_bulk :: "string \<Rightarrow> string" where
  "encode_bulk token = CHR ''$'' # show_nat (length token) @ crlf @ token @ crlf"

definition encodeRespCommand :: "string list \<Rightarrow> string" where
  "encodeRespCommand ts =
     foldl (\<lambda>encoded token. encoded @ encode_bulk token)
       (CHR ''*'' # show_nat (length ts) @ crlf) ts"

lemma encodeRespCommand_eq:
  "encodeRespCommand ts = CHR ''*'' # show_nat (length ts) @ crlf @ concat (map encode_bulk ts)"
proof -
  have "foldl (\<lambda>encoded token. encoded @ encode_bulk token) acc ts = acc @ concat (map encode_bulk ts)" for acc
    by (induction ts arbitrary: acc) auto
  then show ?thesis by (simp add: encodeRespCommand_def)
qed

definition sendable :: "string list \<Rightarrow> bool" where
  "sendable ts \<longleftrightarrow> int (length ts) \<le> llong_max \<and> (\<forall>t\<in>set ts. int (length t) \<le> llong_max)"

lemma find_crlf_line: "CR \<notin> set l \<Longrightarrow> find_crlf (l @ crlf @ r) = Some (length l)"
proof (induction l)
  case (Cons c l)
  then show ?case by (cases l) (auto simp: crlf_def)
qed (simp add: crlf_def)

lemma parseIntegerLine_show_nat:
  assumes "int n \<le> llong_max" "off = length pre"
  shows "parseIntegerLine (pre @ show_nat n @ crlf @ r) off = Some (int n, off + length (show_nat n) + 2)"
  using assms find_crlf_line [of "show_nat n" r] by (simp add: parseIntegerLine_def)

lemma parseElements_encoded:
  "\<forall>t\<in>set ts. int (length t) \<le> llong_max \<Longrightarrow>
     parseElements (pre @ concat (map encode_bulk ts) @ r) (length ts) (length pre) acc
       = Frame (length pre + length (concat (map encode_bulk ts))) (acc @ ts)"
proof (induction ts arbitrary: pre acc)
  case (Cons t ts)
  let ?tail = "concat (map encode_bulk ts) @ r" and ?n = "show_nat (length t)"
  let ?pre = "pre @ CHR ''$'' # ?n @ crlf"
  let ?buf = "pre @ concat (map encode_bulk (t # ts)) @ r"
  have buf: "?buf = ?pre @ t @ crlf @ ?tail" "?buf = (pre @ [CHR ''$'']) @ ?n @ crlf @ t @ crlf @ ?tail"
    by (simp_all add: encode_bulk_def)
  have line: "parseIntegerLine ?buf (length pre + 1) = Some (int (length t), length ?pre)"
    unfolding buf(2) using Cons.prems
    by (subst parseIntegerLine_show_nat) (simp_all add: crlf_def)
  have dollar: "?buf ! length pre = CHR ''$''" "length pre < length ?buf"
    by (simp_all add: encode_bulk_def)
  have long: "length ?pre + length t + 2 \<le> length ?buf"
    unfolding buf(1) by (simp add: crlf_def)
  have ends: "?buf ! (length ?pre + length t) = CR" "?buf ! (length ?pre + length t + 1) = LF"
    unfolding buf(1) by (simp_all add: nth_append crlf_def)
  have tok: "take (length t) (drop (length ?pre) ?buf) = t" unfolding buf(1) by simp
  have step: "parseElements ?buf (length (t # ts)) (length pre) acc
      = parseElements ?buf (length ts) (length ?pre + length t + 2) (acc @ [t])"
    using line dollar long ends tok by (simp add: Let_def del: length_append take_append drop_append)
  have eqs: "?buf = (?pre @ t @ crlf) @ ?tail"
      "length ?pre + length t + 2 = length (?pre @ t @ crlf)"
    by (simp_all add: encode_bulk_def crlf_def)
  have rest: "parseElements ?buf (length ts) (length ?pre + length t + 2) (acc @ [t])
      = Frame (length (?pre @ t @ crlf) + length (concat (map encode_bulk ts))) ((acc @ [t]) @ ts)"
    unfolding eqs by (rule Cons.IH) (use Cons.prems in simp)
  have "length (?pre @ t @ crlf) + length (concat (map encode_bulk ts))
      = length pre + length (concat (map encode_bulk (t # ts)))"
    by (simp add: encode_bulk_def crlf_def)
  with trans [OF step rest] show ?case by (simp only: append_assoc append.simps)
qed simp


lemma parseRespFrame_encoded:
  assumes "sendable ts" "ok (length ts)"
  shows "parseRespFrame ok (encodeRespCommand ts @ r) = Inr (Frame (length (encodeRespCommand ts)) ts)"
proof -
  let ?pre = "CHR ''*'' # show_nat (length ts) @ crlf"
  have buf: "encodeRespCommand ts @ r = ?pre @ concat (map encode_bulk ts) @ r"
      "encodeRespCommand ts @ r = [CHR ''*''] @ show_nat (length ts) @ crlf @ concat (map encode_bulk ts) @ r"
    by (simp_all add: encodeRespCommand_eq)
  have line: "parseIntegerLine (encodeRespCommand ts @ r) 1 = Some (int (length ts), length ?pre)"
    unfolding buf(2) using assms(1) by (subst parseIntegerLine_show_nat) (simp_all add: sendable_def crlf_def)
  have "parseElements (encodeRespCommand ts @ r) (length ts) (length ?pre) []
      = Frame (length ?pre + length (concat (map encode_bulk ts))) ([] @ ts)"
    unfolding buf(1) by (rule parseElements_encoded) (use assms(1) in \<open>simp add: sendable_def\<close>)
  with line assms(2) show ?thesis
    by (simp add: parseRespFrame_def) (simp add: encodeRespCommand_eq)
qed

lemma parseAvailable_encoded:
  assumes "sendable ts" "ok (length ts)"
  shows "parseAvailable ok (encodeRespCommand ts @ r) =
    emit \<lparr>tokens = ts, protocol = Resp\<rparr> (parseAvailable ok r)"
proof -
  have "encodeRespCommand ts @ r \<noteq> []" "hd (encodeRespCommand ts @ r) = CHR ''*''"
    by (simp_all add: encodeRespCommand_eq)
  then show ?thesis
    by (subst parseAvailable.simps) (simp add: parseRespFrame_encoded assms del: append_is_Nil_conv)
qed

abbreviation resp_command :: "string list \<Rightarrow> ParsedCommand" where
  "resp_command ts \<equiv> \<lparr>tokens = ts, protocol = Resp\<rparr>"

lemma parseAvailable_encoded_all:
  "\<forall>ts\<in>set cmds. sendable ts \<and> ok (length ts) \<Longrightarrow>
     parseAvailable ok (concat (map encodeRespCommand cmds) @ r) =
       and_then (parseAvailable ok r) (\<lambda>(cs, r'). Inr (map resp_command cmds @ cs, r'))"
proof (induction cmds)
  case Nil
  show ?case by (cases "parseAvailable ok r") auto
next
  case (Cons ts cmds)
  then show ?case by (cases "parseAvailable ok r") (auto simp: parseAvailable_encoded)
qed

section \<open>What is left in the buffer\<close>

text \<open>Parsing again without new bytes gives nothing new.\<close>

lemma parseAvailable_drained:
  assumes "parseAvailable ok a = Inr (cs, r)"
  shows "parseAvailable ok r = Inr ([], r)"
proof -
  have "continue_with ok [] (Inr (cs, r)) = Inr (cs, r)"
    using parseAvailable_append [of ok a "[]"] assms by simp
  then show ?thesis by (cases "parseAvailable ok r") (auto simp: continue_with_def)
qed

text \<open>Encoded commands are a prefix code: the parser finds the end of each one.\<close>

definition resp_decode :: "(nat \<Rightarrow> bool) \<Rightarrow> string \<Rightarrow> string list decoded" where
  "resp_decode ok s =
     and_then (parseRespFrame ok s) (\<lambda>fr. Inr (case fr of NeedMore \<Rightarrow> None | Frame used ts \<Rightarrow> Some (ts, drop used s)))"

interpretation resp: prefix_codec encodeRespCommand "resp_decode ok"
  "\<lambda>ts. sendable ts \<and> ok (length ts)" for ok
  by unfold_locales (simp add: resp_decode_def parseRespFrame_encoded)

section \<open>Properties\<close>

text \<open>
  C4: the commands of a connection do not depend on how the network cuts its bytes: parsing the chunks
  one by one, keeping the unparsed rest between them, gives the commands, the rest and the fault of
  parsing all bytes at once.
\<close>

theorem parse_chunks: "feed ok chunks [] = parseAvailable ok (concat chunks)"
  by (rule feed_concat)

text \<open>
  C5: what the encoder writes is what the parser reads: a sequence of encoded commands, whatever bytes
  their tokens hold, parses to these commands, and the parser goes on with the bytes that follow.
\<close>

theorem parse_encoded:
  assumes "\<forall>ts\<in>set cmds. sendable ts \<and> ok (length ts)"
  shows "parseAvailable ok (concat (map encodeRespCommand cmds) @ r) =
    and_then (parseAvailable ok r) (\<lambda>(cs, r'). Inr (map resp_command cmds @ cs, r'))"
  using assms by (rule parseAvailable_encoded_all)

theorem parse_encoded_witness:
  "parseAvailable (\<lambda>n. n < 100) (encodeRespCommand [''SET'', ''k'', [CR, LF]] @ ''*1'') =
     Inr ([resp_command [''SET'', ''k'', [CR, LF]]], ''*1'')"
proof -
  have "parseAvailable (\<lambda>n. n < 100) ''*1'' = Inr ([], ''*1'')" by code_simp
  moreover have "sendable [''SET'', ''k'', [CR, LF]]" by (simp add: sendable_def llong_max_def)
  ultimately show ?thesis
    using parse_encoded [of "[[''SET'', ''k'', [CR, LF]]]" "\<lambda>n. n < 100" "''*1''"] by simp
qed

text \<open>
  C21: a request header alone can end the process: whatever the allocator's limit, a client that
  announces an array beyond it makes \<open>reserve\<close> throw before any element arrives.
\<close>

theorem parse_huge_count:
  assumes "int n \<le> llong_max" "\<not> ok n"
  shows "parseAvailable ok (CHR ''*'' # show_nat n @ crlf @ r) = Inl AllocationFailure"
proof -
  have "parseIntegerLine (CHR ''*'' # show_nat n @ crlf @ r) 1 = Some (int n, Suc (length (show_nat n)) + 2)"
    using parseIntegerLine_show_nat [OF assms(1), of 1 "''*''" r] by simp
  then show ?thesis using assms(2) by (subst parseAvailable.simps) (simp add: parseRespFrame_def)
qed

theorem parse_huge_count_witness:
  "parseAvailable (\<lambda>n. n < 100) (CHR ''*'' # show_nat 100 @ crlf @ []) = Inl AllocationFailure"
  using parse_huge_count [of 100 "\<lambda>n. n < 100" "[]"] by (simp add: llong_max_def)

end
