(* ===== verification/AofPersistence.thy ===== *)
theory AofPersistence
  imports CommandSpec CommandParser
begin

text \<open>
  The append-only file of \<open>src/swiftcache/src/core/AofPersistence.cpp\<close>: recording of the commands
  that change data, checkpoints, and replay at startup. The file is its content; the object also
  remembers the database the last recorded command belongs to. What the operating system decides
  is the argument \<open>io\<close>: whether the directory can be made, the file opened, and the bytes written
  (a failing write leaves a prefix of them). The lock of the object makes execution and recording
  of a command one step.
\<close>

record aof_io =
  aof_dir_ok :: bool
  aof_open_ok :: bool
  aof_good :: bool
  aof_takes :: nat

record Aof =
  aof_file :: string
  currentAppendDatabase :: nat

definition all_good :: aof_io where
  "all_good = \<lparr>aof_dir_ok = True, aof_open_ok = True, aof_good = True, aof_takes = 0\<rparr>"

section \<open>Recording\<close>

definition isMutatingCommand :: "string list \<Rightarrow> bool" where
  "isMutatingCommand ts = isAofLoggedCommand ts"

definition select_command :: "nat \<Rightarrow> string list" where
  "select_command db = [''SELECT'', show_nat db]"

definition writeCommand :: "aof_io \<Rightarrow> string list \<Rightarrow> nat \<Rightarrow> Aof \<Rightarrow> bool \<times> Aof" where
  "writeCommand io ts db a =
     (let bytes = (if db \<noteq> currentAppendDatabase a then encodeRespCommand (select_command db) else [])
                  @ encodeRespCommand ts
      in (aof_good io,
          a\<lparr>aof_file := aof_file a @ (if aof_good io then bytes else take (aof_takes io) bytes),
            currentAppendDatabase := db\<rparr>))"

definition aof_append :: "aof_io \<Rightarrow> string list \<Rightarrow> nat \<Rightarrow> Aof \<Rightarrow> (bool \<times> Aof) outcome" where
  "aof_append io ts db a =
     (if \<not> isMutatingCommand ts then Inr (True, a)
      else if \<not> aof_dir_ok io then Inl FilesystemError
      else if \<not> aof_open_ok io then Inr (False, a)
      else Inr (writeCommand io ts db a))"

text \<open>
  The callback \<open>execute\<close> is its outcome: the response and the state it leaves. The result adds
  whether the recording succeeded and the object afterwards.
\<close>

definition executeAndAppend :: "aof_io \<Rightarrow> string list \<Rightarrow> nat \<Rightarrow> (CommandResult \<times> 'st) outcome \<Rightarrow> Aof
    \<Rightarrow> (CommandResult \<times> 'st \<times> bool \<times> Aof) outcome" where
  "executeAndAppend io ts db execute a =
     and_then execute (\<lambda>(res, st).
       if \<not> isMutatingCommand ts then Inr (res, st, True, a)
       else if is_error (response res) then Inr (res, st, True, a)
       else if \<not> aof_dir_ok io then Inl FilesystemError
       else if \<not> aof_open_ok io then Inr (res, st, False, a)
       else (let (ok, a') = writeCommand io ts db a in Inr (res, st, ok, a')))"

text \<open>
  A checkpoint truncates the file after the snapshot was saved. The current database is reset even
  when the file could not be opened for truncation.
\<close>

definition checkpoint :: "aof_io \<Rightarrow> (bool \<times> 'st) outcome \<Rightarrow> Aof \<Rightarrow> (bool \<times> 'st \<times> Aof) outcome" where
  "checkpoint io saveSnapshot a =
     and_then saveSnapshot (\<lambda>(saved, st).
       if \<not> saved then Inr (False, st, a)
       else if \<not> aof_dir_ok io then Inl FilesystemError
       else Inr (aof_open_ok io, st,
                 \<lparr>aof_file = (if aof_open_ok io then [] else aof_file a), currentAppendDatabase = 0\<rparr>))"

definition aof_sizeBytes :: "Aof \<Rightarrow> nat" where
  "aof_sizeBytes a = length (aof_file a)"

section \<open>Moving keys and flushing all databases\<close>

text \<open>\<open>stores[i].moveKeyTo(key, stores[j])\<close>: moving to the same store does nothing.\<close>

definition move_between :: "env \<Rightarrow> string \<Rightarrow> nat \<Rightarrow> nat \<Rightarrow> DataStore list \<Rightarrow> bool \<times> DataStore list" where
  "move_between e k i j stores =
     (if i = j then (False, stores)
      else (let (moved, src, dst) = ds_moveKeyTo e k (stores ! i) (stores ! j)
            in (moved, stores[i := src, j := dst])))"

definition flush_all :: "DataStore list \<Rightarrow> DataStore list" where
  "flush_all stores = map ds_flushdb stores"

section \<open>Replay\<close>

text \<open>\<open>stoull\<close> on the whole argument, and the range check.\<close>

definition replay_index :: "string \<Rightarrow> nat \<Rightarrow> nat option" where
  "replay_index raw n =
     (case stoull raw of
        None \<Rightarrow> None
      | Some (v, used) \<Rightarrow> if used \<noteq> length raw \<or> v \<ge> n then None else Some v)"

definition replay_one :: "info_sources \<Rightarrow> env \<Rightarrow> string list \<Rightarrow> nat \<times> DataStore list \<Rightarrow> (nat \<times> DataStore list) outcome" where
  "replay_one src e ts st =
     (case st of (db, stores) \<Rightarrow>
        if ts = [] then Inr (db, stores)
        else if toUpper (hd ts) = ''FLUSHALL'' then
          Inr (db, if length ts \<noteq> 1 then stores else flush_all stores)
        else if toUpper (hd ts) = ''MOVE'' then
          (if length ts \<noteq> 3 then Inr (db, stores)
           else (case replay_index (ts ! 2) (length stores) of
                   None \<Rightarrow> Inr (db, stores)
                 | Some j \<Rightarrow> Inr (db, snd (move_between e (ts ! 1) db j stores))))
        else if toUpper (hd ts) = ''SELECT'' then
          (if length ts \<noteq> 2 then Inr (db, stores)
           else (case replay_index (ts ! 1) (length stores) of
                   None \<Rightarrow> Inr (db, stores)
                 | Some j \<Rightarrow> Inr (j, stores)))
        else and_then (registry_execute (buildCommandRegistry src) e ts (stores ! db))
               (\<lambda>(res, s'). Inr (db, stores[db := s'])))"

fun replay_all :: "info_sources \<Rightarrow> (nat \<Rightarrow> env) \<Rightarrow> nat \<Rightarrow> ParsedCommand list \<Rightarrow> nat \<times> DataStore list
    \<Rightarrow> (nat \<times> DataStore list) outcome" where
  "replay_all src es i [] st = Inr st"
| "replay_all src es i (c # cs) st =
     and_then (replay_one src (es i) (tokens c) st) (replay_all src es (Suc i) cs)"

text \<open>
  The whole replay. Command \<open>i\<close> of the file runs in the environment \<open>es i\<close>; \<open>reserve_ok\<close> is the
  allocator the parser relies on; \<open>None\<close> is a missing file. Incomplete data at the end is ignored.
\<close>

definition replay :: "info_sources \<Rightarrow> (nat \<Rightarrow> env) \<Rightarrow> (nat \<Rightarrow> bool) \<Rightarrow> string option \<Rightarrow> DataStore list
    \<Rightarrow> (DataStore list) outcome" where
  "replay src es reserve_ok file stores =
     (case file of
        None \<Rightarrow> Inr stores
      | Some buffer \<Rightarrow>
          and_then (parseAvailable reserve_ok buffer) (\<lambda>(cs, rest).
          and_then (replay_all src es 0 cs (0, stores)) (\<lambda>(db, stores'). Inr stores')))"

end
