(* ===== verification/DataCommands.thy ===== *)
theory DataCommands
  imports AofPersistence
begin

text \<open>
  The commands of \<open>src/swiftcache/src/networking/TcpServer.cpp\<close> that act on the databases, without
  the sending of their responses: \<open>MOVE\<close> and \<open>FLUSHALL\<close>, which the server handles itself, and the
  commands of the registry, each executed in the client's database and recorded in the
  append-only file when there is one.
\<close>

definition parseDatabaseIndex :: "string \<Rightarrow> nat \<Rightarrow> nat option" where
  "parseDatabaseIndex raw databaseCount =
     (if raw = [] \<or> hd raw = CHR ''-'' then None
      else (case stoull raw of
              None \<Rightarrow> None
            | Some (v, used) \<Rightarrow> if used \<noteq> length raw \<or> v \<ge> databaseCount then None else Some v))"

definition with_aof :: "aof_io \<Rightarrow> string list \<Rightarrow> nat \<Rightarrow> (CommandResult \<times> DataStore list) outcome \<Rightarrow> Aof option
    \<Rightarrow> (CommandResult \<times> DataStore list \<times> bool \<times> Aof option) outcome" where
  "with_aof io ts db execute aof =
     (case aof of
        None \<Rightarrow> and_then execute (\<lambda>(res, stores). Inr (res, stores, True, None))
      | Some a \<Rightarrow> and_then (executeAndAppend io ts db execute a)
          (\<lambda>(res, stores, ok, a'). Inr (res, stores, ok, Some a')))"

definition move_key :: "env \<Rightarrow> string \<Rightarrow> nat \<Rightarrow> nat \<Rightarrow> DataStore list \<Rightarrow> (CommandResult \<times> DataStore list) outcome" where
  "move_key e k db destination stores =
     (let (moved, stores') = move_between e k db destination stores in Inr (answer (flag moved), stores'))"

definition run_in :: "info_sources \<Rightarrow> env \<Rightarrow> string list \<Rightarrow> nat \<Rightarrow> DataStore list \<Rightarrow> (CommandResult \<times> DataStore list) outcome" where
  "run_in src e ts db stores =
     and_then (registry_execute (buildCommandRegistry src) e ts (stores ! db))
       (\<lambda>(res, s'). Inr (res, stores[db := s']))"

text \<open>\<open>MOVE\<close> and \<open>FLUSHALL\<close>, up to the sending of the response.\<close>

definition handleMoveCommand :: "env \<Rightarrow> aof_io \<Rightarrow> string list \<Rightarrow> nat \<Rightarrow> DataStore list \<Rightarrow> Aof option
    \<Rightarrow> (CommandResult \<times> DataStore list \<times> bool \<times> Aof option) outcome" where
  "handleMoveCommand e io ts db stores aof =
     (if length ts \<noteq> 3 then Inr (wrong_arity ''MOVE'', stores, True, aof)
      else (case parseDatabaseIndex (ts ! 2) (length stores) of
              None \<Rightarrow> Inr (answer ''ERR DB index is out of range'', stores, True, aof)
            | Some j \<Rightarrow> with_aof io ts db (move_key e (ts ! 1) db j stores) aof))"

definition handleFlushAllCommand :: "aof_io \<Rightarrow> string list \<Rightarrow> nat \<Rightarrow> DataStore list \<Rightarrow> Aof option
    \<Rightarrow> (CommandResult \<times> DataStore list \<times> bool \<times> Aof option) outcome" where
  "handleFlushAllCommand io ts db stores aof =
     (if length ts \<noteq> 1 then Inr (wrong_arity ''FLUSHALL'', stores, True, aof)
      else with_aof io ts db (Inr (answer ''OK'', flush_all stores)) aof)"

definition data_command :: "info_sources \<Rightarrow> env \<Rightarrow> aof_io \<Rightarrow> string list \<Rightarrow> nat \<Rightarrow> DataStore list \<Rightarrow> Aof option
    \<Rightarrow> (CommandResult \<times> DataStore list \<times> bool \<times> Aof option) outcome" where
  "data_command src e io ts db stores aof =
     (if toUpper (hd ts) = ''MOVE'' then handleMoveCommand e io ts db stores aof
      else if toUpper (hd ts) = ''FLUSHALL'' then handleFlushAllCommand io ts db stores aof
      else with_aof io ts db (run_in src e ts db stores) aof)"

lemmas data_command_defs = data_command_def handleMoveCommand_def handleFlushAllCommand_def

end
