(* ===== verification/SnapshotPersistence.thy ===== *)
theory SnapshotPersistence
  imports StoreRefine
begin

text \<open>
  The snapshot file of \<open>src/swiftcache/src/core/SnapshotPersistence.cpp\<close>. Writers are functions to
  byte strings and readers are decoders. What the operating system decides is the argument \<open>io\<close>:
  whether the directory can be made, the temporary file opened, the bytes written and flushed, and
  the file renamed into place. Which sizes the allocator grants is the argument \<open>alloc\<close>. The snapshot
  file itself is the content of the path, \<open>None\<close> when there is no file; the temporary file becomes
  that content only by the final rename.
\<close>

record allocator =
  string_ok :: "nat \<Rightarrow> bool"
  entries_ok :: "nat \<Rightarrow> bool"

record save_io =
  dir_ok :: bool
  open_ok :: bool
  good_after :: "nat \<Rightarrow> bool"
  flush_ok :: bool
  rename_ok :: bool

abbreviation kMagic :: string where "kMagic \<equiv> ''SWIFTCACHE_SNAPSHOT_V1''"
abbreviation kMultiDbMagic :: string where "kMultiDbMagic \<equiv> ''SWIFTCACHE_SNAPSHOT_V2''"

section \<open>Writing\<close>

definition writeLine :: "string \<Rightarrow> string" where
  "writeLine v = v @ [LF]"

definition writeBulk :: "string \<Rightarrow> string" where
  "writeBulk v = show_nat (length v) @ LF # v @ [LF]"

definition writeField :: "string \<times> string \<Rightarrow> string" where
  "writeField fv = writeBulk (fst fv) @ writeBulk (snd fv)"

definition writePayload :: "ValueObject \<Rightarrow> string option" where
  "writePayload obj =
     (if vo_type obj = type_String then Some (writeBulk (vo_value obj))
      else if vo_type obj = type_List
      then Some (writeLine (show_nat (length (vo_list obj))) @ concat (map writeBulk (vo_list obj)))
      else if vo_type obj = type_Hash
      then (let fields = sort_key fst (vo_hash obj)
            in Some (writeLine (show_nat (length fields)) @ concat (map writeField fields)))
      else if vo_type obj = type_Set
      then (let members = sort (vo_set obj)
            in Some (writeLine (show_nat (length members)) @ concat (map writeBulk members)))
      else None)"

definition writeEntry :: "SnapshotEntry \<Rightarrow> string option" where
  "writeEntry entry =
     (case entry of (k, obj) \<Rightarrow>
        map_option (\<lambda>payload. writeBulk k @ writeBulk (vo_type obj)
            @ writeLine (show_int (createdAt obj)) @ writeLine (show_int (expiresAt obj)) @ payload)
          (writePayload obj))"

fun writeEntryLoop :: "SnapshotEntry list \<Rightarrow> string option" where
  "writeEntryLoop [] = Some []"
| "writeEntryLoop (entry # rest) =
     (case writeEntry entry of
        None \<Rightarrow> None
      | Some t \<Rightarrow> map_option (\<lambda>t'. t @ t') (writeEntryLoop rest))"

definition writeEntries :: "SnapshotEntry list \<Rightarrow> string option" where
  "writeEntries entries = map_option (\<lambda>t. writeLine (show_nat (length entries)) @ t) (writeEntryLoop entries)"

text \<open>
  The loop over the databases: each one is asked for its snapshot, which erases its expired keys,
  and the stream is checked after each.
\<close>

fun writeStores :: "(nat \<Rightarrow> env) \<Rightarrow> save_io \<Rightarrow> nat \<Rightarrow> DataStore list \<Rightarrow> string option \<times> DataStore list" where
  "writeStores es io i [] = (Some [], [])"
| "writeStores es io i (s # ss) =
     (let (entries, s') = ds_snapshot (es i) s in
      case writeEntries entries of
        None \<Rightarrow> (None, s' # ss)
      | Some t \<Rightarrow>
          if \<not> good_after io i then (None, s' # ss)
          else (case writeStores es io (Suc i) ss of
                  (None, ss') \<Rightarrow> (None, s' # ss')
                | (Some t', ss') \<Rightarrow> (Some (t @ t'), s' # ss')))"

text \<open>The result, the content of the snapshot path afterwards, and the stores.\<close>

definition snapshot_save :: "(nat \<Rightarrow> env) \<Rightarrow> save_io \<Rightarrow> string option \<Rightarrow> DataStore list
    \<Rightarrow> (bool \<times> string option \<times> DataStore list) outcome" where
  "snapshot_save es io file stores =
     (if \<not> dir_ok io then Inl FilesystemError
      else if \<not> open_ok io then Inr (False, file, stores)
      else (case writeStores es io 0 stores of
              (None, stores') \<Rightarrow> Inr (False, file, stores')
            | (Some body, stores') \<Rightarrow>
                if \<not> flush_ok io then Inr (False, file, stores')
                else if \<not> rename_ok io then Inl FilesystemError
                else Inr (True,
                  Some (writeLine kMultiDbMagic @ writeLine (show_nat (length stores)) @ body), stores')))"

section \<open>Reading\<close>

definition readLine :: "string \<Rightarrow> string decoded" where
  "readLine s = Inr (getline s)"

text \<open>\<open>std::stoull\<close> and \<open>std::stoll\<close> stop at the first character that is not a digit.\<close>

definition readSize :: "string \<Rightarrow> nat decoded" where
  "readSize s =
     read_then (readLine s) (\<lambda>line r. Inr (map_option (\<lambda>(n, used). (n, r)) (stoull line)))"

definition readLongLong :: "string \<Rightarrow> int decoded" where
  "readLongLong s =
     read_then (readLine s) (\<lambda>line r. Inr (map_option (\<lambda>(n, used). (n, r)) (stoll line)))"

definition readBulk :: "allocator \<Rightarrow> string \<Rightarrow> string decoded" where
  "readBulk alloc s =
     read_then (readSize s) (\<lambda>size r.
       if \<not> string_ok alloc size then Inl AllocationFailure
       else if length r < size then Inr None
       else (case drop size r of
               [] \<Rightarrow> Inr None
             | c # r' \<Rightarrow> Inr (if c = LF then Some (take size r, r') else None)))"

definition readField :: "allocator \<Rightarrow> string \<Rightarrow> (string \<times> string) decoded" where
  "readField alloc s =
     read_then (readBulk alloc s) (\<lambda>f r. read_then (readBulk alloc r) (\<lambda>v r'. Inr (Some ((f, v), r'))))"

definition counted :: "(string \<Rightarrow> 'a decoded) \<Rightarrow> string \<Rightarrow> 'a list decoded" where
  "counted dec s = read_then (readSize s) (\<lambda>n r. decode_n dec n r)"

definition loaded_object :: "string \<Rightarrow> int \<Rightarrow> int \<Rightarrow> ValueObject" where
  "loaded_object type created expires =
     \<lparr>vo_value = [], vo_list = [], vo_hash = [], vo_set = [], vo_type = type,
      createdAt = created, expiresAt = expires, lastAccessedAt = -1\<rparr>"

definition readPayload :: "allocator \<Rightarrow> ValueObject \<Rightarrow> string \<Rightarrow> ValueObject decoded" where
  "readPayload alloc obj s =
     (if vo_type obj = type_String
      then read_then (readBulk alloc s) (\<lambda>v r. Inr (Some (obj\<lparr>vo_value := v\<rparr>, r)))
      else if vo_type obj = type_List
      then read_then (counted (readBulk alloc) s) (\<lambda>l r. Inr (Some (obj\<lparr>vo_list := l\<rparr>, r)))
      else if vo_type obj = type_Hash
      then read_then (counted (readField alloc) s) (\<lambda>fs r.
             Inr (Some (obj\<lparr>vo_hash := foldl (\<lambda>h (f, v). AList.update f v h) [] fs\<rparr>, r)))
      else if vo_type obj = type_Set
      then read_then (counted (readBulk alloc) s) (\<lambda>ms r.
             Inr (Some (obj\<lparr>vo_set := foldl (\<lambda>acc x. if x \<in> set acc then acc else acc @ [x]) [] ms\<rparr>, r)))
      else Inr None)"

definition readEntry :: "allocator \<Rightarrow> string \<Rightarrow> SnapshotEntry decoded" where
  "readEntry alloc s =
     read_then (readBulk alloc s) (\<lambda>k r1.
     read_then (readBulk alloc r1) (\<lambda>type r2.
     read_then (readLongLong r2) (\<lambda>created r3.
     read_then (readLongLong r3) (\<lambda>expires r4.
     read_then (readPayload alloc (loaded_object type created expires) r4) (\<lambda>obj r5.
       Inr (Some ((k, obj), r5)))))))"

definition readEntries :: "allocator \<Rightarrow> string \<Rightarrow> SnapshotEntry list decoded" where
  "readEntries alloc s =
     read_then (readSize s) (\<lambda>n r.
       if \<not> entries_ok alloc n then Inl AllocationFailure else decode_n (readEntry alloc) n r)"

text \<open>
  The loop over the databases of the file. Sections beyond the configured databases are read and
  dropped; a failure leaves the databases loaded so far.
\<close>

fun loadStores :: "(nat \<Rightarrow> env) \<Rightarrow> allocator \<Rightarrow> nat \<Rightarrow> nat \<Rightarrow> string \<Rightarrow> DataStore list \<Rightarrow> (bool \<times> DataStore list) outcome" where
  "loadStores es alloc 0 i s stores = Inr (True, take i stores @ map ds_flushdb (drop i stores))"
| "loadStores es alloc (Suc n) i s stores =
     (case readEntries alloc s of
        Inl f \<Rightarrow> Inl f
      | Inr None \<Rightarrow> Inr (False, stores)
      | Inr (Some (entries, r)) \<Rightarrow>
          loadStores es alloc n (Suc i) r
            (if i < length stores then stores[i := ds_loadSnapshot (es i) entries (stores ! i)] else stores))"

definition snapshot_load :: "(nat \<Rightarrow> env) \<Rightarrow> allocator \<Rightarrow> string option \<Rightarrow> DataStore list
    \<Rightarrow> (bool \<times> DataStore list) outcome" where
  "snapshot_load es alloc file stores =
     (case file of
        None \<Rightarrow> Inr (True, stores)
      | Some content \<Rightarrow>
          (case getline content of
             None \<Rightarrow> Inr (False, stores)
           | Some (magic, s) \<Rightarrow>
               if magic = kMagic then
                 (case readEntries alloc s of
                    Inl f \<Rightarrow> Inl f
                  | Inr None \<Rightarrow> Inr (False, stores)
                  | Inr (Some (entries, r)) \<Rightarrow>
                      (case stores of
                         [] \<Rightarrow> Inl DanglingIterator
                       | st # ss \<Rightarrow> Inr (True, ds_loadSnapshot (es 0) entries st # map ds_flushdb ss)))
               else if magic = kMultiDbMagic then
                 (case readSize s of
                    Inl f \<Rightarrow> Inl f
                  | Inr None \<Rightarrow> Inr (False, stores)
                  | Inr (Some (n, r)) \<Rightarrow> loadStores es alloc n 0 r stores)
               else Inr (False, stores)))"

section \<open>Reading back single items\<close>

abbreviation fits :: "nat \<Rightarrow> bool" where
  "fits n \<equiv> n < 2 ^ 64"

definition text_ok :: "allocator \<Rightarrow> string \<Rightarrow> bool" where
  "text_ok alloc v \<longleftrightarrow> fits (length v) \<and> string_ok alloc (length v)"

lemma readLine_line: "LF \<notin> set l \<Longrightarrow> readLine (l @ LF # r) = Inr (Some (l, r))"
  by (simp add: readLine_def)

lemma readSize_line: "fits n \<Longrightarrow> readSize (show_nat n @ LF # r) = Inr (Some (n, r))"
  by (simp add: readSize_def readLine_line)

lemma readLongLong_line: "in_llong i \<Longrightarrow> readLongLong (show_int i @ LF # r) = Inr (Some (i, r))"
  by (simp add: readLongLong_def readLine_line)

interpretation bulk: prefix_codec writeBulk "readBulk alloc" "text_ok alloc" for alloc
  by unfold_locales (simp add: writeBulk_def readBulk_def text_ok_def readSize_line)

interpretation field: prefix_codec writeField "readField alloc"
    "\<lambda>fv. text_ok alloc (fst fv) \<and> text_ok alloc (snd fv)" for alloc
  by unfold_locales (auto simp: writeField_def readField_def bulk.dec_enc)

lemma counted_texts:
  assumes "fits (length vs)" "\<forall>v\<in>set vs. text_ok alloc v"
  shows "counted (readBulk alloc) (writeLine (show_nat (length vs)) @ concat (map writeBulk vs) @ r)
    = Inr (Some (vs, r))"
  using assms by (simp add: counted_def writeLine_def readSize_line bulk.decode_n_enc)

lemma counted_fields:
  assumes "fits (length fs)" "\<forall>(f, v)\<in>set fs. text_ok alloc f \<and> text_ok alloc v"
  shows "counted (readField alloc) (writeLine (show_nat (length fs)) @ concat (map writeField fs) @ r)
    = Inr (Some (fs, r))"
proof -
  have "\<forall>fv\<in>set fs. text_ok alloc (fst fv) \<and> text_ok alloc (snd fv)" using assms(2) by auto
  then show ?thesis using assms(1) by (simp add: counted_def writeLine_def readSize_line field.decode_n_enc)
qed

lemma insert_fields: "distinct_keys fs \<Longrightarrow> foldl (\<lambda>h (f, v). AList.update f v h) [] fs = fs"
proof -
  have gen: "distinct_keys (acc @ fs) \<Longrightarrow> foldl (\<lambda>h (f, v). AList.update f v h) acc fs = acc @ fs" for acc
  proof (induction fs arbitrary: acc)
    case (Cons fv fs)
    have "fst fv \<notin> fst ` set acc" using Cons.prems by auto
    then have "AList.update (fst fv) (snd fv) acc = acc @ [fv]"
      by (induction acc) auto
    then show ?case using Cons.IH [of "acc @ [fv]"] Cons.prems by (simp add: case_prod_beta)
  qed simp
  show "distinct_keys fs \<Longrightarrow> foldl (\<lambda>h (f, v). AList.update f v h) [] fs = fs"
    using gen [of "[]"] by simp
qed

lemma insert_members:
  "distinct ms \<Longrightarrow> foldl (\<lambda>acc x. if x \<in> set acc then acc else acc @ [x]) [] ms = ms"
proof -
  have gen: "distinct (acc @ ms) \<Longrightarrow> foldl (\<lambda>acc x. if x \<in> set acc then acc else acc @ [x]) acc ms = acc @ ms" for acc
    by (induction ms arbitrary: acc) auto
  show "distinct ms \<Longrightarrow> foldl (\<lambda>acc x. if x \<in> set acc then acc else acc @ [x]) [] ms = ms"
    using gen [of "[]"] by simp
qed

section \<open>Entries\<close>

text \<open>
  What a written entry is read back as: hash fields and set members come in order, and the time of
  the last access is not stored.
\<close>

definition normalised :: "ValueObject \<Rightarrow> ValueObject" where
  "normalised obj = obj\<lparr>vo_hash := sort_key fst (vo_hash obj), vo_set := sort (vo_set obj), lastAccessedAt := -1\<rparr>"

definition storable :: "allocator \<Rightarrow> SnapshotEntry \<Rightarrow> bool" where
  "storable alloc entry \<longleftrightarrow> wf_obj (snd entry) \<and> text_ok alloc (fst entry)
     \<and> text_ok alloc (vo_type (snd entry)) \<and> text_ok alloc (vo_value (snd entry))
     \<and> fits (length (vo_list (snd entry))) \<and> (\<forall>v\<in>set (vo_list (snd entry)). text_ok alloc v)
     \<and> fits (length (vo_hash (snd entry)))
     \<and> (\<forall>(f, v)\<in>set (vo_hash (snd entry)). text_ok alloc f \<and> text_ok alloc v)
     \<and> fits (length (vo_set (snd entry))) \<and> (\<forall>v\<in>set (vo_set (snd entry)). text_ok alloc v)"

lemma writePayload_wf: "wf_obj obj \<Longrightarrow> \<exists>t. writePayload obj = Some t"
  using wf_type_cases [of obj] by (auto simp: writePayload_def Let_def)

lemma readPayload_written:
  assumes "storable alloc (k, obj)" "writePayload obj = Some t"
  shows "readPayload alloc (loaded_object (vo_type obj) (createdAt obj) (expiresAt obj)) (t @ r)
    = Inr (Some (normalised obj, r))"
proof -
  have wf: "wf_obj obj" using assms(1) by (simp add: storable_def)
  have d: "distinct_keys (sort_key fst (vo_hash obj))" "distinct (sort (vo_set obj))"
    using wf_obj_distinct [OF wf] by simp_all
  consider "vo_type obj = type_String" | "vo_type obj = type_List" | "vo_type obj = type_Hash"
    | "vo_type obj = type_Set"
    using wf_type_cases [OF wf] by blast
  then show ?thesis
  proof cases
    case 1
    then show ?thesis using assms wf
      by (auto simp: readPayload_def writePayload_def loaded_object_def storable_def bulk.dec_enc normalised_def wf_obj_def wf_payload_def)
  next
    case 2
    then show ?thesis using assms wf counted_texts [of "vo_list obj" alloc r]
      by (auto simp: readPayload_def writePayload_def loaded_object_def storable_def normalised_def wf_obj_def wf_payload_def)
  next
    case 3
    then show ?thesis using assms wf counted_fields [of "sort_key fst (vo_hash obj)" alloc r] insert_fields [OF d(1)]
      by (auto simp: readPayload_def writePayload_def loaded_object_def storable_def normalised_def Let_def wf_obj_def wf_payload_def)
  next
    case 4
    then show ?thesis using assms wf counted_texts [of "sort (vo_set obj)" alloc r] insert_members [OF d(2)]
      by (auto simp: readPayload_def writePayload_def loaded_object_def storable_def normalised_def Let_def wf_obj_def wf_payload_def)
  qed
qed

lemma readEntry_written:
  assumes "storable alloc (k, obj)" "writeEntry (k, obj) = Some t"
  shows "readEntry alloc (t @ r) = Inr (Some ((k, normalised obj), r))"
proof -
  obtain p where p: "writePayload obj = Some p"
      "t = writeBulk k @ writeBulk (vo_type obj) @ writeLine (show_int (createdAt obj))
        @ writeLine (show_int (expiresAt obj)) @ p"
    using assms(2) by (auto simp: writeEntry_def)
  have "text_ok alloc k" "text_ok alloc (vo_type obj)" "in_llong (createdAt obj)" "in_llong (expiresAt obj)"
    using assms(1) wf_obj_times by (auto simp: storable_def)
  then show ?thesis
    using readPayload_written [OF assms(1) p(1)]
    by (simp add: p(2) readEntry_def bulk.dec_enc writeLine_def readLongLong_line)
qed

lemma writeEntryLoop_wf: "\<forall>(k, obj)\<in>set entries. wf_obj obj \<Longrightarrow> \<exists>t. writeEntryLoop entries = Some t"
proof (induction entries)
  case (Cons entry entries)
  then show ?case using writePayload_wf by (cases entry) (fastforce simp: writeEntry_def)
qed simp

lemma decode_entries_written:
  "\<forall>entry\<in>set entries. storable alloc entry \<Longrightarrow> writeEntryLoop entries = Some t \<Longrightarrow>
     decode_n (readEntry alloc) (length entries) (t @ r) = Inr (Some (map (\<lambda>(k, obj). (k, normalised obj)) entries, r))"
proof (induction entries arbitrary: t)
  case (Cons entry entries)
  obtain k obj where e: "entry = (k, obj)" by (cases entry)
  from Cons.prems(2) obtain t1 t2 where t: "writeEntry entry = Some t1" "writeEntryLoop entries = Some t2" "t = t1 @ t2"
    by (auto split: option.splits)
  then show ?case
    using Cons.IH [of t2] Cons.prems(1) readEntry_written [of alloc k obj t1 "t2 @ r"] by (simp add: e)
qed simp

lemma readEntries_written:
  assumes "\<forall>entry\<in>set entries. storable alloc entry" "fits (length entries)" "entries_ok alloc (length entries)"
    and "writeEntries entries = Some t"
  shows "readEntries alloc (t @ r) = Inr (Some (map (\<lambda>(k, obj). (k, normalised obj)) entries, r))"
  using assms decode_entries_written [OF assms(1)]
  by (auto simp: writeEntries_def readEntries_def writeLine_def readSize_line)


section \<open>Loading what was saved\<close>

lemma find_key_load_loop:
  "distinct_keys entries \<Longrightarrow>
     find_key k (load_loop now entries s) =
       (case map_of entries k of
          None \<Rightarrow> find_key k s
        | Some obj \<Rightarrow> if isExpired obj now then find_key k s
            else Some (if lastAccessedAt obj = -1 then obj\<lparr>lastAccessedAt := now\<rparr> else obj))"
proof (induction now entries s rule: load_loop.induct)
  case (2 now k' obj rest s)
  have "map_of rest k' = None" using "2.prems" by (simp add: map_of_eq_None_iff)
  with 2 show ?case by (auto split: option.splits)
qed simp

lemma view_load_loop:
  assumes "distinct_keys entries"
  shows "view now (load_loop now entries (s\<lparr>store_values := []\<rparr>)) k =
    (case map_of entries k of None \<Rightarrow> None | Some obj \<Rightarrow> if isExpired obj now then None else Some (abs_entry obj))"
  using find_key_load_loop [OF assms, of k now "s\<lparr>store_values := []\<rparr>"]
  by (auto simp: view_def find_key_def [of k "s\<lparr>store_values := []\<rparr>"] split: option.splits)

lemma eviction_off_load_loop [simp]: "eviction_off (load_loop now entries s) = eviction_off s"
  by (induction now entries s rule: load_loop.induct) simp_all

lemma eviction_off_values [simp]: "eviction_off (s\<lparr>store_values := m\<rparr>) = eviction_off s"
  by (simp add: eviction_off_def)

lemma abs_entry_normalised: "wf_obj obj \<Longrightarrow> abs_entry (normalised obj) = abs_entry obj"
  using wf_obj_distinct [of obj]
  by (simp add: abs_entry_def normalised_def abs_value_def deadline_def map_of_sort_key)

lemma isExpired_normalised [simp]: "isExpired (normalised obj) now = isExpired obj now"
  by (simp add: normalised_def isExpired_def)

abbreviation written :: "SnapshotEntry list \<Rightarrow> SnapshotEntry list" where
  "written entries \<equiv> map (\<lambda>(k, obj). (k, normalised obj)) entries"

lemma map_of_snapshot:
  "wf_store s \<Longrightarrow> map_of (fst (ds_snapshot e s)) k =
     (case find_key k s of None \<Rightarrow> None | Some obj \<Rightarrow> if isExpired obj (clock e 0) then None else Some obj)"
  by (simp add: ds_snapshot_def Let_def map_of_sort_key wf_distinct map_of_live_entries find_key_def)

lemma distinct_snapshot: "wf_store s \<Longrightarrow> distinct_keys (fst (ds_snapshot e s))"
  by (simp add: ds_snapshot_def Let_def wf_distinct)

lemma view_loaded:
  assumes "wf_store s" "eviction_off t" "clock e 0 \<le> clock e' 0"
  shows "view (clock e' 0) (ds_loadSnapshot e' (written (fst (ds_snapshot e s))) t) = view (clock e' 0) s"
proof
  fix k
  have d: "distinct_keys (written (fst (ds_snapshot e s)))"
    using distinct_snapshot [OF assms(1), of e] by (simp add: case_prod_beta o_def)
  have m: "map_of (written (fst (ds_snapshot e s))) k = map_option normalised (map_of (fst (ds_snapshot e s)) k)"
    by (simp add: map_of_map)
  have "view (clock e' 0) (ds_loadSnapshot e' (written (fst (ds_snapshot e s))) t) k =
      (case find_key k s of None \<Rightarrow> None
       | Some obj \<Rightarrow> if isExpired obj (clock e 0) \<or> isExpired obj (clock e' 0) then None
                       else Some (abs_entry (normalised obj)))"
    using assms(2) by (simp add: ds_loadSnapshot_def view_load_loop [OF d] m map_of_snapshot [OF assms(1)] split: option.split)
  also have "\<dots> = view (clock e' 0) s k"
    using assms(3) isExpired_mono abs_entry_normalised wf_find [OF assms(1)]
    by (auto simp: view_def split: option.split)
  finally show "view (clock e' 0) (ds_loadSnapshot e' (written (fst (ds_snapshot e s))) t) k = view (clock e' 0) s k" .
qed

definition storable_store :: "allocator \<Rightarrow> DataStore \<Rightarrow> bool" where
  "storable_store alloc s \<longleftrightarrow> wf_store s \<and> (\<forall>entry\<in>set (store_values s). storable alloc entry)
     \<and> (\<forall>n\<le>length (store_values s). fits n \<and> entries_ok alloc n)"

lemma set_snapshot: "set (fst (ds_snapshot e s)) \<subseteq> set (store_values s)"
  by (auto simp: ds_snapshot_def Let_def set_live_entries)

lemma length_snapshot: "length (fst (ds_snapshot e s)) \<le> length (store_values s)"
  by (simp add: ds_snapshot_def Let_def length_live_entries)

lemma readEntries_snapshot:
  assumes "storable_store alloc s" "writeEntries (fst (ds_snapshot e s)) = Some t"
  shows "readEntries alloc (t @ r) = Inr (Some (written (fst (ds_snapshot e s)), r))"
  using assms set_snapshot [of e s] length_snapshot [of e s]
  by (intro readEntries_written) (auto simp: storable_store_def)

lemma writeEntries_snapshot: "wf_store s \<Longrightarrow> \<exists>t. writeEntries (fst (ds_snapshot e s)) = Some t"
  using writeEntryLoop_wf [of "fst (ds_snapshot e s)"] set_snapshot [of e s]
  by (fastforce simp: wf_store_def writeEntries_def)

text \<open>What the databases of a file are loaded as.\<close>

fun loaded_from :: "(nat \<Rightarrow> env) \<Rightarrow> (nat \<Rightarrow> env) \<Rightarrow> nat \<Rightarrow> DataStore list \<Rightarrow> DataStore list \<Rightarrow> DataStore list" where
  "loaded_from es es' i (s # ss) (t # ts) =
     ds_loadSnapshot (es' i) (written (fst (ds_snapshot (es i) s))) t # loaded_from es es' (Suc i) ss ts"
| "loaded_from es es' i _ _ = []"

lemma loadStores_written:
  "writeStores es io (length pre) ss = (Some body, ss') \<Longrightarrow> \<forall>s\<in>set ss. storable_store alloc s \<Longrightarrow>
     length ts = length ss \<Longrightarrow>
     loadStores es' alloc (length ss) (length pre) (body @ r) (pre @ ts)
       = Inr (True, pre @ loaded_from es es' (length pre) ss ts)"
proof (induction ss arbitrary: pre body ss' ts)
  case (Cons s ss)
  obtain t ts' where ts: "ts = t # ts'" using Cons.prems(3) by (cases ts) auto
  obtain x where x: "writeEntries (fst (ds_snapshot (es (length pre)) s)) = Some x"
    using Cons.prems(2) writeEntries_snapshot by (fastforce simp: storable_store_def)
  from Cons.prems(1) x obtain body' ss1 where
      b: "body = x @ body'" "writeStores es io (Suc (length pre)) ss = (Some body', ss1)"
    by (cases "writeStores es io (Suc (length pre)) ss")
      (auto simp: Let_def case_prod_beta split: if_splits option.splits)
  let ?t = "ds_loadSnapshot (es' (length pre)) (written (fst (ds_snapshot (es (length pre)) s))) t"
  have "readEntries alloc (x @ body' @ r) = Inr (Some (written (fst (ds_snapshot (es (length pre)) s)), body' @ r))"
    using Cons.prems(2) x by (intro readEntries_snapshot) auto
  then have "loadStores es' alloc (length (s # ss)) (length pre) (body @ r) (pre @ ts)
      = loadStores es' alloc (length ss) (length (pre @ [?t])) (body' @ r) ((pre @ [?t]) @ ts')"
    by (simp add: ts b(1))
  also have "\<dots> = Inr (True, (pre @ [?t]) @ loaded_from es es' (length (pre @ [?t])) ss ts')"
    using Cons.IH [of "pre @ [?t]" body' ss1 ts'] Cons.prems(2,3) b(2) ts by simp
  finally show ?case by (simp add: ts)
qed simp

lemma loaded_from_views:
  "length ts = length ss \<Longrightarrow> \<forall>s\<in>set ss. wf_store s \<Longrightarrow> \<forall>t\<in>set ts. eviction_off t \<Longrightarrow>
     \<forall>j. clock (es j) 0 \<le> clock (es' j) 0 \<Longrightarrow>
     length (loaded_from es es' i ss ts) = length ss \<and>
     (\<forall>j<length ss. view (clock (es' (i + j)) 0) (loaded_from es es' i ss ts ! j) = view (clock (es' (i + j)) 0) (ss ! j))"
proof (induction es es' i ss ts rule: loaded_from.induct)
  case (1 es es' i s ss t ts)
  then have IH: "length (loaded_from es es' (Suc i) ss ts) = length ss"
      "\<forall>j<length ss. view (clock (es' (Suc i + j)) 0) (loaded_from es es' (Suc i) ss ts ! j)
         = view (clock (es' (Suc i + j)) 0) (ss ! j)"
    by auto
  have "view (clock (es' i) 0) (ds_loadSnapshot (es' i) (written (fst (ds_snapshot (es i) s))) t) = view (clock (es' i) 0) s"
    using "1.prems" by (intro view_loaded) auto
  then show ?case using IH by (auto simp: less_Suc_eq_0_disj)
qed auto

lemma loaded_from_off:
  "\<forall>t\<in>set ts. eviction_off t \<Longrightarrow> \<forall>t\<in>set (loaded_from es es' i ss ts). eviction_off t"
  by (induction es es' i ss ts rule: loaded_from.induct) (auto simp: ds_loadSnapshot_def)

lemma snapshot_round_trip:
  assumes "snapshot_save es io file ss = Inr (True, file', ss')"
    and "\<forall>s\<in>set ss. storable_store alloc s" "fits (length ss)"
    and "length ts = length ss" "\<forall>t\<in>set ts. eviction_off t" "\<forall>j. clock (es j) 0 \<le> clock (es' j) 0"
  shows "\<exists>loaded. snapshot_load es' alloc file' ts = Inr (True, loaded) \<and> length loaded = length ss \<and>
    (\<forall>t\<in>set loaded. eviction_off t) \<and>
    (\<forall>j<length ss. view (clock (es' j) 0) (loaded ! j) = view (clock (es' j) 0) (ss ! j))"
proof -
  from assms(1) obtain body where b: "writeStores es io 0 ss = (Some body, ss')"
      "file' = Some (writeLine kMultiDbMagic @ writeLine (show_nat (length ss)) @ body)"
    by (auto simp: snapshot_save_def split: if_splits option.splits prod.splits)
  have "LF \<notin> set kMultiDbMagic" by (simp add: LF_def)
  then have "snapshot_load es' alloc file' ts = loadStores es' alloc (length ss) 0 body ts"
    using assms(3) getline_append [of kMultiDbMagic "writeLine (show_nat (length ss)) @ body"]
    by (simp add: snapshot_load_def b(2) writeLine_def readSize_line)
  also have "\<dots> = Inr (True, loaded_from es es' 0 ss ts)"
    using loadStores_written [of es io "[]" ss body ss' alloc ts es' "[]"] b(1) assms(2,4) by simp
  finally show ?thesis
    using loaded_from_views [of ts ss es es' 0] loaded_from_off [OF assms(5), of es es' 0 ss] assms(2,4-6)
    by (simp add: storable_store_def)
qed

section \<open>Saving\<close>

lemma view_snapshot [view_simps]:
  "wf_store s \<Longrightarrow> view (clock e 0) (snd (ds_snapshot e s)) = view (clock e 0) s"
  using view_live_entries [of s "clock e 0"] by (simp add: ds_snapshot_def Let_def)

lemma writeStores_views:
  "\<forall>s\<in>set ss. wf_store s \<Longrightarrow> writeStores es io i ss = (x, ss') \<Longrightarrow>
     length ss' = length ss \<and> (\<forall>s\<in>set ss'. wf_store s) \<and>
     (\<forall>j<length ss. view (clock (es (i + j)) 0) (ss' ! j) = view (clock (es (i + j)) 0) (ss ! j))"
proof (induction es io i ss arbitrary: x ss' rule: writeStores.induct)
  case (2 es io i s ss)
  have s: "view (clock (es i) 0) (snd (ds_snapshot (es i) s)) = view (clock (es i) 0) s"
      "wf_store (snd (ds_snapshot (es i) s))"
    using "2.prems"(1) by (simp_all add: view_snapshot wf_intros)
  obtain entries s1 where sn: "ds_snapshot (es i) s = (entries, s1)" by fastforce
  consider (stop) "ss' = s1 # ss" | (go) y ss1 where "writeStores es io (Suc i) ss = (y, ss1)" "ss' = s1 # ss1" "good_after io i"
      "\<exists>t. writeEntries entries = Some t"
    using "2.prems"(2) sn by (auto split: option.splits if_splits prod.splits)
  then show ?case
  proof cases
    case stop
    then show ?thesis using s sn "2.prems"(1) by (auto simp: less_Suc_eq_0_disj)
  next
    case go
    then have "length ss1 = length ss \<and> (\<forall>s\<in>set ss1. wf_store s) \<and>
        (\<forall>j<length ss. view (clock (es (Suc i + j)) 0) (ss1 ! j) = view (clock (es (Suc i + j)) 0) (ss ! j))"
      using "2.IH" [OF sn [symmetric] refl] "2.prems"(1) by auto
    then show ?thesis using s sn go by (auto simp: less_Suc_eq_0_disj)
  qed
qed auto

lemma writeStores_complete:
  "\<forall>s\<in>set ss. wf_store s \<Longrightarrow> \<forall>j. good_after io j \<Longrightarrow> \<exists>body ss'. writeStores es io i ss = (Some body, ss')"
proof (induction ss arbitrary: i)
  case (Cons s ss)
  then obtain t where "writeEntries (fst (ds_snapshot (es i) s)) = Some t"
    using writeEntries_snapshot by fastforce
  moreover obtain body ss' where "writeStores es io (Suc i) ss = (Some body, ss')" using Cons by fastforce
  ultimately show ?case using Cons.prems by (simp add: case_prod_beta)
qed simp

section \<open>Properties\<close>


definition working_disk :: save_io where
  "working_disk = \<lparr>dir_ok = True, open_ok = True, good_after = \<lambda>_. True, flush_ok = True, rename_ok = True\<rparr>"

definition small_allocator :: allocator where
  "small_allocator = \<lparr>string_ok = \<lambda>n. n < 1000000, entries_ok = \<lambda>n. n < 1000000\<rparr>"

lemma sample_storable: "\<forall>s\<in>set [one_list, empty_store]. storable_store small_allocator s"
proof -
  have one: "store_values one_list = [(''l'', list_object [''x''] 1)]" by code_simp
  show ?thesis
    using wf_one_list by (simp add: storable_store_def one) (simp add: storable_def wf_obj_def list_object_def wf_payload_def
      wf_times_def in_llong_def llong_min_def llong_max_def text_ok_def small_allocator_def empty_store_def)
qed


text \<open>
  C23: saving is all or nothing for the snapshot file and harmless for the data: a save that fails
  leaves the previous file in place, and in either case the databases show the same keys.
\<close>

theorem snapshot_save_atomic:
  assumes "\<forall>s\<in>set ss. wf_store s" "snapshot_save es io file ss = Inr (saved, file', ss')"
  shows "(\<not> saved \<longrightarrow> file' = file) \<and> (saved \<longrightarrow> file' \<noteq> None) \<and> length ss' = length ss \<and> (\<forall>s\<in>set ss'. wf_store s) \<and>
    (\<forall>j<length ss. view (clock (es j) 0) (ss' ! j) = view (clock (es j) 0) (ss ! j))"
proof -
  have "ss' = ss \<or> (\<exists>x. writeStores es io 0 ss = (x, ss'))" "\<not> saved \<longrightarrow> file' = file" "saved \<longrightarrow> file' \<noteq> None"
    using assms(2) by (auto simp: snapshot_save_def split: if_splits option.splits prod.splits)
  then show ?thesis using writeStores_views [OF assms(1), of es io 0] assms(1) by auto
qed

theorem snapshot_save_atomic_witness:
  "\<exists>ss'. snapshot_save (\<lambda>_. frozen 9) (working_disk\<lparr>flush_ok := False\<rparr>) (Some ''old'') [empty_store] = Inr (False, Some ''old'', ss') \<and>
     length ss' = 1"
proof -
  have x: "snapshot_save (\<lambda>_. frozen 9) (working_disk\<lparr>flush_ok := False\<rparr>) (Some ''old'') [empty_store] = Inr (False, Some ''old'', [empty_store])"
    by code_simp
  from snapshot_save_atomic [OF _ x] x show ?thesis by auto
qed

end
