(* ===== verification/RespFormat.thy ===== *)
theory RespFormat
  imports CommandParser CommandSpec
begin

text \<open>
  The formatting helpers at the top of \<open>src/swiftcache/src/networking/TcpServer.cpp\<close>. The server
  keeps responses as plain text and guesses the RESP type from the text when the client speaks
  RESP. The second half specifies how a RESP client reads a value and relates the two.
\<close>

section \<open>Formatting\<close>

definition trimTrailingNewline :: "string \<Rightarrow> string" where
  "trimTrailingNewline value = rev (trimLineEnding_rev (rev value))"

definition isIntegerLine :: "string \<Rightarrow> bool" where
  "isIntegerLine value =
     (if value = [] then False
      else (let ds = (if hd value = CHR ''-'' then tl value else value)
            in ds \<noteq> [] \<and> list_all isdigit ds))"

definition bulkString :: "string \<Rightarrow> string" where
  "bulkString value = ''$'' @ show_nat (length value) @ crlf @ value @ crlf"

definition formatRespArray :: "string list \<Rightarrow> string" where
  "formatRespArray values = ''*'' @ show_nat (length values) @ crlf @ concat (map bulkString values)"

text \<open>The loop over \<open>std::getline\<close>; a carriage return at the end of a line is dropped.\<close>

definition pop_cr :: "string \<Rightarrow> string" where
  "pop_cr line = (if line \<noteq> [] \<and> last line = CR then butlast line else line)"

function split_lines :: "string \<Rightarrow> string list" where
  "split_lines s = (case getline s of None \<Rightarrow> [] | Some (l, r) \<Rightarrow> pop_cr l # split_lines r)"
  by pat_completeness auto
termination
  by (relation "measure length") (auto dest: getline_length)

declare split_lines.simps [simp del]

definition formatItem :: "string \<Rightarrow> string" where
  "formatItem item =
     (if item = nil_text then ''$-1'' @ crlf
      else if isIntegerLine item then '':'' @ item @ crlf
      else bulkString item)"

definition formatRespResponse :: "string \<Rightarrow> string" where
  "formatRespResponse text =
     (let trimmed = trimTrailingNewline text in
      if starts_with trimmed ''ERR '' \<or> starts_with trimmed ''NOAUTH '' then ''-'' @ trimmed @ crlf
      else if trimmed = ''OK'' \<or> trimmed = ''PONG'' then ''+'' @ trimmed @ crlf
      else if trimmed = nil_text then ''$-1'' @ crlf
      else if isIntegerLine trimmed then '':'' @ trimmed @ crlf
      else if trimmed \<noteq> [] \<and> hd trimmed = CHR 0x7B then bulkString trimmed
      else (let lines = split_lines trimmed in
            if length lines \<le> 1 then bulkString trimmed
            else ''*'' @ show_nat (length lines) @ crlf @ concat (map formatItem lines)))"

definition isSuccessfulResponse :: "string \<Rightarrow> bool" where
  "isSuccessfulResponse text = (\<not> starts_with text ''ERR '')"

definition isRejectedResponse :: "string \<Rightarrow> bool" where
  "isRejectedResponse text = starts_with text ''ERR ''"

definition formatPubSubTuple :: "RequestProtocol \<Rightarrow> string \<Rightarrow> string \<Rightarrow> nat \<Rightarrow> string" where
  "formatPubSubTuple proto kind channel n =
     (if proto = Resp
      then ''*3'' @ crlf @ bulkString kind @ bulkString channel @ '':'' @ show_nat n @ crlf
      else kind @ [LF] @ channel @ [LF] @ show_nat n @ [LF])"

definition formatPubSubMessage :: "RequestProtocol \<Rightarrow> string \<Rightarrow> string \<Rightarrow> string" where
  "formatPubSubMessage proto channel message =
     (if proto = Resp then formatRespArray [''message'', channel, message]
      else ''message'' @ [LF] @ channel @ [LF] @ message @ [LF])"

definition evictionPolicyName :: "EvictionPolicy \<Rightarrow> string" where
  "evictionPolicyName pol =
     (case pol of
        PolicyNone \<Rightarrow> ''none''
      | AllKeysLru \<Rightarrow> ''allkeys-lru''
      | VolatileLru \<Rightarrow> ''volatile-lru''
      | TtlPriority \<Rightarrow> ''ttl-priority''
      | RandomPolicy \<Rightarrow> ''random'')"

definition protocolName :: "RequestProtocol \<Rightarrow> string" where
  "protocolName proto = (if proto = Resp then ''resp'' else ''inline'')"

text \<open>\<open>if (command.protocol == RequestProtocol::Resp) response = formatRespResponse(response)\<close>.\<close>

definition encode_for :: "RequestProtocol \<Rightarrow> string \<Rightarrow> string" where
  "encode_for proto text = (if proto = Resp then formatRespResponse text else text)"

section \<open>How a client reads RESP\<close>

datatype resp_value =
    RespError string | RespSimple string | RespInteger string | RespNil | RespBulk string
  | RespArray "resp_value list"

text \<open>A line up to the first line end.\<close>

definition read_crlf_line :: "string \<Rightarrow> (string \<times> string) option" where
  "read_crlf_line s = (case find_crlf s of None \<Rightarrow> None | Some n \<Rightarrow> Some (take n s, drop (n + 2) s))"

definition read_count :: "string \<Rightarrow> nat option" where
  "read_count l = (if l \<noteq> [] \<and> list_all isdigit l then Some (digits_value l) else None)"

definition read_bulk_body :: "nat \<Rightarrow> string \<Rightarrow> (resp_value \<times> string) option" where
  "read_bulk_body n s =
     (if n + 2 \<le> length s \<and> take 2 (drop n s) = crlf then Some (RespBulk (take n s), drop (n + 2) s) else None)"

definition read_scalar :: "string \<Rightarrow> resp_value decoded" where
  "read_scalar s =
     Inr (case s of
        [] \<Rightarrow> None
      | c # r \<Rightarrow>
          (case read_crlf_line r of
             None \<Rightarrow> None
           | Some (l, rest) \<Rightarrow>
               if c = CHR ''-'' then Some (RespError l, rest)
               else if c = CHR ''+'' then Some (RespSimple l, rest)
               else if c = CHR '':'' then Some (RespInteger l, rest)
               else if c = CHR ''$'' then
                 (if l = ''-1'' then Some (RespNil, rest)
                  else (case read_count l of None \<Rightarrow> None | Some n \<Rightarrow> read_bulk_body n rest))
               else None))"

definition read_resp :: "string \<Rightarrow> resp_value decoded" where
  "read_resp s =
     (case s of
        c # r \<Rightarrow>
          if c = CHR ''*'' then
            (case read_crlf_line r of
               None \<Rightarrow> Inr None
             | Some (l, rest) \<Rightarrow>
                 (case read_count l of
                    None \<Rightarrow> Inr None
                  | Some n \<Rightarrow> read_then (decode_n read_scalar n rest) (\<lambda>vs rest'. Inr (Some (RespArray vs, rest')))))
          else read_scalar s
      | [] \<Rightarrow> Inr None)"

section \<open>Reading what the server formats\<close>

lemma read_crlf_line_append: "CR \<notin> set l \<Longrightarrow> read_crlf_line (l @ crlf @ r) = Some (l, r)"
  by (simp add: read_crlf_line_def find_crlf_line) (simp add: crlf_def)

lemma read_count_show_nat [simp]: "read_count (show_nat n) = Some n"
  using show_nat_digits [of _ n] by (simp add: read_count_def list_all_iff)

lemma show_nat_not_minus: "show_nat n \<noteq> ''-1''"
  using show_nat_digits [of "CHR ''-''" n] isdigit_not_special(2) [of "CHR ''-''"] by auto

lemma read_scalar_bulk: "read_scalar (bulkString v @ r) = Inr (Some (RespBulk v, r))"
proof -
  have "read_crlf_line (show_nat (length v) @ crlf @ v @ crlf @ r) = Some (show_nat (length v), v @ crlf @ r)"
    by (rule read_crlf_line_append) simp
  moreover have "read_bulk_body (length v) (v @ crlf @ r) = Some (RespBulk v, r)"
    by (simp add: read_bulk_body_def crlf_def)
  ultimately show ?thesis by (simp add: read_scalar_def bulkString_def show_nat_not_minus)
qed

lemma read_scalar_line:
  assumes "CR \<notin> set l"
  shows "read_scalar (CHR ''-'' # l @ crlf @ r) = Inr (Some (RespError l, r))"
    and "read_scalar (CHR ''+'' # l @ crlf @ r) = Inr (Some (RespSimple l, r))"
    and "read_scalar (CHR '':'' # l @ crlf @ r) = Inr (Some (RespInteger l, r))"
  by (simp_all add: read_scalar_def read_crlf_line_append [OF assms])

lemma read_scalar_nil: "read_scalar (''$-1'' @ crlf @ r) = Inr (Some (RespNil, r))"
  using read_crlf_line_append [of "''-1''" r] by (simp add: read_scalar_def CR_def)

lemma isIntegerLine_no_CR: "isIntegerLine l \<Longrightarrow> CR \<notin> set l"
  using isdigit_not_special(4)
  by (cases l) (auto simp: isIntegerLine_def Let_def list_all_iff CR_def split: if_splits)

definition item_value :: "string \<Rightarrow> resp_value" where
  "item_value item =
     (if item = nil_text then RespNil else if isIntegerLine item then RespInteger item else RespBulk item)"

fun encode_scalar :: "resp_value \<Rightarrow> string" where
  "encode_scalar (RespError l) = ''-'' @ l @ crlf"
| "encode_scalar (RespSimple l) = ''+'' @ l @ crlf"
| "encode_scalar (RespInteger l) = '':'' @ l @ crlf"
| "encode_scalar RespNil = ''$-1'' @ crlf"
| "encode_scalar (RespBulk b) = bulkString b"
| "encode_scalar (RespArray vs) = []"

fun scalar_ok :: "resp_value \<Rightarrow> bool" where
  "scalar_ok (RespError l) \<longleftrightarrow> CR \<notin> set l"
| "scalar_ok (RespSimple l) \<longleftrightarrow> CR \<notin> set l"
| "scalar_ok (RespInteger l) \<longleftrightarrow> CR \<notin> set l"
| "scalar_ok RespNil \<longleftrightarrow> True"
| "scalar_ok (RespBulk b) \<longleftrightarrow> True"
| "scalar_ok (RespArray vs) \<longleftrightarrow> False"

interpretation scalar: prefix_codec encode_scalar read_scalar scalar_ok
proof
  fix v r
  assume "scalar_ok v"
  then show "read_scalar (encode_scalar v @ r) = Inr (Some (v, r))"
    using read_scalar_nil [of r] by (cases v) (auto simp: read_scalar_bulk read_scalar_line)
qed

lemma formatItem_eq: "formatItem item = encode_scalar (item_value item)"
  by (simp add: formatItem_def item_value_def)

lemma item_value_ok: "scalar_ok (item_value item)"
  by (simp add: item_value_def isIntegerLine_no_CR)

text \<open>What a RESP client makes of a response text.\<close>

definition resp_meaning :: "string \<Rightarrow> resp_value" where
  "resp_meaning text =
     (let trimmed = trimTrailingNewline text in
      if starts_with trimmed ''ERR '' \<or> starts_with trimmed ''NOAUTH '' then RespError trimmed
      else if trimmed = ''OK'' \<or> trimmed = ''PONG'' then RespSimple trimmed
      else if trimmed = nil_text \<or> isIntegerLine trimmed then item_value trimmed
      else if trimmed \<noteq> [] \<and> hd trimmed = CHR 0x7B \<or> length (split_lines trimmed) \<le> 1 then RespBulk trimmed
      else RespArray (map item_value (split_lines trimmed)))"

lemma read_formatRespResponse:
  assumes "is_error (trimTrailingNewline text) \<or> starts_with (trimTrailingNewline text) ''NOAUTH ''
      \<Longrightarrow> CR \<notin> set (trimTrailingNewline text)"
  shows "read_resp (formatRespResponse text @ r) = Inr (Some (resp_meaning text, r))"
proof -
  let ?t = "trimTrailingNewline text"
  have scalar: "read_resp (encode_scalar v @ r) = Inr (Some (v, r))" if "scalar_ok v" for v
    using scalar.dec_enc [OF that, of r] that
    by (cases v) (auto simp: read_resp_def bulkString_def)
  have arr: "read_resp (''*'' @ show_nat (length ls) @ crlf @ concat (map formatItem ls) @ r)
      = Inr (Some (RespArray (map item_value ls), r))" for ls
  proof -
    have "read_crlf_line (show_nat (length ls) @ crlf @ concat (map formatItem ls) @ r)
        = Some (show_nat (length ls), concat (map formatItem ls) @ r)"
      by (rule read_crlf_line_append) simp
    moreover have "decode_n read_scalar (length (map item_value ls)) (concat (map encode_scalar (map item_value ls)) @ r)
        = Inr (Some (map item_value ls, r))"
      by (rule scalar.decode_n_enc) (simp add: item_value_ok)
    ultimately show ?thesis by (simp add: read_resp_def formatItem_eq [abs_def] o_def)
  qed
  show ?thesis
  proof (cases "\<exists>v. formatRespResponse text = encode_scalar v \<and> scalar_ok v \<and> resp_meaning text = v")
    case True
    then show ?thesis using scalar by auto
  next
    case False
    have no_CR: "CR \<notin> set ''OK''" "CR \<notin> set ''PONG''" by (simp_all add: CR_def)
    have "formatRespResponse text
          = ''*'' @ show_nat (length (split_lines ?t)) @ crlf @ concat (map formatItem (split_lines ?t))
        \<and> resp_meaning text = RespArray (map item_value (split_lines ?t))"
      using False assms no_CR isIntegerLine_no_CR [of ?t]
      by (auto simp: formatRespResponse_def resp_meaning_def Let_def is_error_def item_value_def split: if_splits)
    then show ?thesis using arr [of "split_lines ?t"] by simp
  qed
qed

section \<open>Properties\<close>

text \<open>
  C24: every response is exactly one RESP value: a client that reads the bytes sent for a response
  gets the value the formatter meant, whatever bytes the response holds, and continues at the next
  response. An error text must not hold a carriage return.
\<close>

theorem response_is_one_frame:
  assumes "is_error (trimTrailingNewline text) \<or> starts_with (trimTrailingNewline text) ''NOAUTH ''
      \<Longrightarrow> CR \<notin> set (trimTrailingNewline text)"
  shows "read_resp (formatRespResponse text @ r) = Inr (Some (resp_meaning text, r))"
  using assms by (rule read_formatRespResponse)

theorem response_is_one_frame_witness:
  "read_resp (formatRespResponse (''a'' @ [LF] @ ''7'' @ [LF]) @ ''+OK'') = Inr (Some (RespArray [RespBulk ''a'', RespInteger ''7''], ''+OK''))"
proof -
  have "\<not> (is_error (trimTrailingNewline (''a'' @ [LF] @ ''7'' @ [LF])) \<or> starts_with (trimTrailingNewline (''a'' @ [LF] @ ''7'' @ [LF])) ''NOAUTH '')"
    by code_simp
  moreover have "resp_meaning (''a'' @ [LF] @ ''7'' @ [LF]) = RespArray [RespBulk ''a'', RespInteger ''7'']" by code_simp
  ultimately show ?thesis using response_is_one_frame [of "''a'' @ [LF] @ ''7'' @ [LF]" "''+OK''"] by simp
qed


end
