(* ===== verification/PubSub.thy ===== *)
theory PubSub
  imports RespFormat
begin

text \<open>
  Publish and subscribe, from \<open>src/swiftcache/src/networking/TcpServer.cpp\<close>. The server keeps two
  maps: from a channel to its subscribers with their protocols, and from a client (a file
  descriptor) to its channels. Each operation holds one lock, so it is one step. The order in which
  a hash table is walked is an argument, a rank of the keys. The maps are shown to represent one
  relation between clients and channels.
\<close>

record PubSub =
  channelSubscribers :: "(string \<times> (int \<times> RequestProtocol) list) list"
  clientSubscriptions :: "(int \<times> string list) list"

definition no_subscriptions :: PubSub where
  "no_subscriptions = \<lparr>channelSubscribers = [], clientSubscriptions = []\<rparr>"

definition channels_of :: "PubSub \<Rightarrow> int \<Rightarrow> string list" where
  "channels_of ps fd = (case map_of (clientSubscriptions ps) fd of None \<Rightarrow> [] | Some cs \<Rightarrow> cs)"

definition subscribers_of :: "PubSub \<Rightarrow> string \<Rightarrow> (int \<times> RequestProtocol) list" where
  "subscribers_of ps c = (case map_of (channelSubscribers ps) c of None \<Rightarrow> [] | Some m \<Rightarrow> m)"

section \<open>Operations\<close>

definition subscribe_one :: "int \<Rightarrow> RequestProtocol \<Rightarrow> string \<Rightarrow> PubSub \<Rightarrow> PubSub" where
  "subscribe_one fd proto c ps =
     (let cs = channels_of ps fd in
      ps\<lparr>clientSubscriptions := AList.update fd (if c \<in> set cs then cs else cs @ [c]) (clientSubscriptions ps),
         channelSubscribers := AList.update c (AList.update fd proto (subscribers_of ps c)) (channelSubscribers ps)\<rparr>)"

fun subscribe_loop :: "int \<Rightarrow> RequestProtocol \<Rightarrow> string list \<Rightarrow> PubSub \<Rightarrow> string \<times> PubSub" where
  "subscribe_loop fd proto [] ps = ([], ps)"
| "subscribe_loop fd proto (c # cs) ps =
     (let ps' = subscribe_one fd proto c ps;
          item = formatPubSubTuple proto ''subscribe'' c (length (channels_of ps' fd));
          (rest, ps'') = subscribe_loop fd proto cs ps'
      in (item @ rest, ps''))"

text \<open>\<open>clientSubscriptions_[clientFd]\<close> makes an empty entry for a new client first.\<close>

definition subscribe :: "int \<Rightarrow> RequestProtocol \<Rightarrow> string list \<Rightarrow> PubSub \<Rightarrow> string \<times> PubSub" where
  "subscribe fd proto cs ps =
     subscribe_loop fd proto cs
       (ps\<lparr>clientSubscriptions := AList.update fd (channels_of ps fd) (clientSubscriptions ps)\<rparr>)"

definition drop_subscriber :: "int \<Rightarrow> string \<Rightarrow> PubSub \<Rightarrow> PubSub" where
  "drop_subscriber fd c ps =
     (case map_of (channelSubscribers ps) c of
        None \<Rightarrow> ps
      | Some m \<Rightarrow>
          let m' = AList.delete fd m in
          ps\<lparr>channelSubscribers := (if m' = [] then AList.delete c (channelSubscribers ps)
                                     else AList.update c m' (channelSubscribers ps))\<rparr>)"

definition drop_channel :: "int \<Rightarrow> string \<Rightarrow> PubSub \<Rightarrow> PubSub" where
  "drop_channel fd c ps =
     (case map_of (clientSubscriptions ps) fd of
        None \<Rightarrow> ps
      | Some cs \<Rightarrow>
          let cs' = remove1 c cs in
          ps\<lparr>clientSubscriptions := (if cs' = [] then AList.delete fd (clientSubscriptions ps)
                                      else AList.update fd cs' (clientSubscriptions ps))\<rparr>)"

fun unsubscribe_loop :: "int \<Rightarrow> RequestProtocol \<Rightarrow> string list \<Rightarrow> PubSub \<Rightarrow> string \<times> PubSub" where
  "unsubscribe_loop fd proto [] ps = ([], ps)"
| "unsubscribe_loop fd proto (c # cs) ps =
     (let ps' = drop_subscriber fd c (drop_channel fd c ps);
          item = formatPubSubTuple proto ''unsubscribe'' c (length (channels_of ps' fd));
          (rest, ps'') = unsubscribe_loop fd proto cs ps'
      in (item @ rest, ps''))"

definition unsubscribe :: "(string \<Rightarrow> nat) \<Rightarrow> int \<Rightarrow> RequestProtocol \<Rightarrow> string list \<Rightarrow> PubSub \<Rightarrow> string \<times> PubSub" where
  "unsubscribe order fd proto cs ps =
     unsubscribe_loop fd proto (if cs = [] then sort_key order (channels_of ps fd) else cs) ps"

definition removeClientSubscriptions :: "int \<Rightarrow> PubSub \<Rightarrow> PubSub" where
  "removeClientSubscriptions fd ps =
     (case map_of (clientSubscriptions ps) fd of
        None \<Rightarrow> ps
      | Some cs \<Rightarrow>
          let ps' = fold (drop_subscriber fd) cs ps in
          ps'\<lparr>clientSubscriptions := AList.delete fd (clientSubscriptions ps')\<rparr>)"

text \<open>
  The messages sent, in order, and the reply. Whether a send to a client succeeds is the argument
  \<open>reachable\<close>; a client that cannot be reached loses its subscriptions.
\<close>

definition publish :: "(int \<Rightarrow> nat) \<Rightarrow> (int \<Rightarrow> bool) \<Rightarrow> RequestProtocol \<Rightarrow> string \<Rightarrow> string \<Rightarrow> PubSub
    \<Rightarrow> (int \<times> string) list \<times> string \<times> PubSub" where
  "publish order reachable proto c message ps =
     (let subscribers = sort_key (\<lambda>x. order (fst x)) (subscribers_of ps c);
          sent = map (\<lambda>(fd, p). (fd, formatPubSubMessage p c message)) subscribers;
          failed = filter (\<lambda>fd. \<not> reachable fd) (map fst subscribers);
          delivered = length subscribers - length failed
      in (filter (\<lambda>(fd, text). reachable fd) sent,
          if proto = Resp then '':'' @ show_nat delivered @ crlf else show_nat delivered @ [LF],
          fold removeClientSubscriptions failed ps))"

definition clientSubscriptionCount :: "PubSub \<Rightarrow> int \<Rightarrow> nat" where
  "clientSubscriptionCount ps fd =
     (case map_of (clientSubscriptions ps) fd of None \<Rightarrow> 0 | Some cs \<Rightarrow> length cs)"

section \<open>The relation between clients and channels\<close>

definition subscribed :: "PubSub \<Rightarrow> (int \<times> string) set" where
  "subscribed ps = {(fd, c). c \<in> set (channels_of ps fd)}"

text \<open>
  The two maps agree, keys are distinct, a channel without subscribers is not kept.
\<close>

definition pubsub_inv :: "PubSub \<Rightarrow> bool" where
  "pubsub_inv ps \<longleftrightarrow>
     (\<forall>fd. distinct (channels_of ps fd)) \<and>
     (\<forall>c. distinct_keys (subscribers_of ps c)) \<and>
     (\<forall>fd c. fd \<in> fst ` set (subscribers_of ps c) \<longleftrightarrow> c \<in> set (channels_of ps fd)) \<and>
     (\<forall>c. map_of (channelSubscribers ps) c \<noteq> Some [])"

lemma pubsub_inv_initial: "pubsub_inv no_subscriptions"
  by (simp add: pubsub_inv_def no_subscriptions_def channels_of_def subscribers_of_def)

lemma channels_of_updates [simp]:
  "channels_of (ps\<lparr>channelSubscribers := m\<rparr>) fd = channels_of ps fd"
  "subscribers_of (ps\<lparr>clientSubscriptions := n\<rparr>) c = subscribers_of ps c"
  by (simp_all add: channels_of_def subscribers_of_def)

lemma channels_of_subscribe_one:
  "channels_of (subscribe_one fd proto c ps) fd' =
     (if fd' = fd then if c \<in> set (channels_of ps fd) then channels_of ps fd else channels_of ps fd @ [c]
      else channels_of ps fd')"
  by (auto simp: subscribe_one_def Let_def channels_of_def amap.find_insert split: option.splits)

lemma subscribers_of_subscribe_one:
  "subscribers_of (subscribe_one fd proto c ps) c' =
     (if c' = c then AList.update fd proto (subscribers_of ps c) else subscribers_of ps c')"
  by (simp add: subscribe_one_def Let_def subscribers_of_def amap.find_insert)

lemma update_not_Nil: "AList.update k v m \<noteq> []"
  by (cases m) auto

lemma set_keys_update: "fst ` set (AList.update k v m) = insert k (fst ` set m)"
  using arg_cong [OF amap.find_insert [of k v m], of dom] by (simp add: dom_map_of_conv_image_fst)

lemma set_keys_delete: "fst ` set (AList.delete k m) = fst ` set m - {k}"
  using arg_cong [OF amap.find_erase [of k m], of dom] by (simp add: dom_map_of_conv_image_fst)

lemma subscribe_one_inv:
  assumes "pubsub_inv ps"
  shows "pubsub_inv (subscribe_one fd proto c ps)"
    and "subscribed (subscribe_one fd proto c ps) = insert (fd, c) (subscribed ps)"
proof -
  have "map_of (channelSubscribers (subscribe_one fd proto c ps)) c' \<noteq> Some []" for c'
    using assms by (simp add: subscribe_one_def Let_def amap.find_insert update_not_Nil pubsub_inv_def)
  then show "pubsub_inv (subscribe_one fd proto c ps)"
    using assms
    by (simp add: pubsub_inv_def channels_of_subscribe_one subscribers_of_subscribe_one amap.invar_insert set_keys_update)
  show "subscribed (subscribe_one fd proto c ps) = insert (fd, c) (subscribed ps)"
    by (auto simp: subscribed_def channels_of_subscribe_one split: if_splits)
qed

lemma subscribe_loop_inv:
  "pubsub_inv ps \<Longrightarrow> pubsub_inv (snd (subscribe_loop fd proto cs ps)) \<and>
     subscribed (snd (subscribe_loop fd proto cs ps)) = subscribed ps \<union> {fd} \<times> set cs"
proof (induction cs arbitrary: ps)
  case (Cons c cs)
  then show ?case
    using subscribe_one_inv [OF Cons.prems, of fd proto c] Cons.IH [of "subscribe_one fd proto c ps"]
    by (auto simp: Let_def case_prod_beta)
qed simp

lemma subscribe_inv:
  assumes "pubsub_inv ps"
  shows "pubsub_inv (snd (subscribe fd proto cs ps)) \<and>
    subscribed (snd (subscribe fd proto cs ps)) = subscribed ps \<union> {fd} \<times> set cs"
proof -
  let ?ps = "ps\<lparr>clientSubscriptions := AList.update fd (channels_of ps fd) (clientSubscriptions ps)\<rparr>"
  have ch: "channels_of ?ps fd' = channels_of ps fd'" for fd'
    by (simp add: channels_of_def amap.find_insert)
  then have "pubsub_inv ?ps" "subscribed ?ps = subscribed ps"
    using assms by (simp_all add: pubsub_inv_def subscribed_def)
  then show ?thesis using subscribe_loop_inv [of ?ps fd proto cs] by (simp add: subscribe_def)
qed

lemma subscribers_of_drop:
  "subscribers_of (drop_subscriber fd c ps) c' =
     (if c' = c then AList.delete fd (subscribers_of ps c) else subscribers_of ps c')"
  by (auto simp: drop_subscriber_def subscribers_of_def Let_def amap.find_insert amap.find_erase split: option.splits)

lemma channels_of_drop_subscriber [simp]: "channels_of (drop_subscriber fd c ps) = channels_of ps"
  by (auto simp: drop_subscriber_def channels_of_def Let_def fun_eq_iff split: option.splits)

lemma channels_of_drop_channel:
  "channels_of (drop_channel fd c ps) fd' =
     (if fd' = fd then remove1 c (channels_of ps fd) else channels_of ps fd')"
  by (auto simp: drop_channel_def channels_of_def Let_def amap.find_insert amap.find_erase split: option.splits)

lemma subscribers_of_drop_channel [simp]: "subscribers_of (drop_channel fd c ps) = subscribers_of ps"
  by (auto simp: drop_channel_def subscribers_of_def Let_def fun_eq_iff split: option.splits)

lemma no_empty_channel:
  "\<forall>c. map_of (channelSubscribers ps) c \<noteq> Some [] \<Longrightarrow> map_of (channelSubscribers (drop_subscriber fd c ps)) c' \<noteq> Some []"
  by (auto simp: drop_subscriber_def Let_def amap.find_insert amap.find_erase split: option.splits)

lemma channelSubscribers_drop_channel [simp]: "channelSubscribers (drop_channel fd c ps) = channelSubscribers ps"
  by (simp add: drop_channel_def Let_def split: option.split)


lemma unsubscribe_one_inv:
  assumes "pubsub_inv ps"
  shows "pubsub_inv (drop_subscriber fd c (drop_channel fd c ps))"
    and "subscribed (drop_subscriber fd c (drop_channel fd c ps)) = subscribed ps - {(fd, c)}"
proof -
  have d: "distinct (channels_of ps fd)" using assms by (simp add: pubsub_inv_def)
  show "pubsub_inv (drop_subscriber fd c (drop_channel fd c ps))"
    using assms d no_empty_channel [of "drop_channel fd c ps" fd c]
    by (auto simp: pubsub_inv_def channels_of_drop_channel subscribers_of_drop amap.invar_erase set_keys_delete)
  show "subscribed (drop_subscriber fd c (drop_channel fd c ps)) = subscribed ps - {(fd, c)}"
    using d by (auto simp: subscribed_def channels_of_drop_channel split: if_splits)
qed

lemma unsubscribe_loop_inv:
  "pubsub_inv ps \<Longrightarrow> pubsub_inv (snd (unsubscribe_loop fd proto cs ps)) \<and>
     subscribed (snd (unsubscribe_loop fd proto cs ps)) = subscribed ps - {fd} \<times> set cs"
proof (induction cs arbitrary: ps)
  case (Cons c cs)
  then show ?case
    using unsubscribe_one_inv [OF Cons.prems, of fd c] Cons.IH [of "drop_subscriber fd c (drop_channel fd c ps)"]
    by (auto simp: Let_def case_prod_beta)
qed simp

lemma unsubscribe_inv:
  assumes "pubsub_inv ps"
  shows "pubsub_inv (snd (unsubscribe order fd proto cs ps)) \<and>
    subscribed (snd (unsubscribe order fd proto cs ps)) =
      subscribed ps - {fd} \<times> (if cs = [] then UNIV else set cs)"
  using unsubscribe_loop_inv [OF assms, of fd proto]
  by (auto simp: unsubscribe_def) (auto simp: subscribed_def)

lemma fold_drop_subscriber:
  "channels_of (fold (drop_subscriber fd) cs ps) = channels_of ps"
  "clientSubscriptions (fold (drop_subscriber fd) cs ps) = clientSubscriptions ps"
  "subscribers_of (fold (drop_subscriber fd) cs ps) c =
     (if c \<in> set cs then AList.delete fd (subscribers_of ps c) else subscribers_of ps c)"
  "\<forall>c. map_of (channelSubscribers ps) c \<noteq> Some [] \<Longrightarrow>
     \<forall>c. map_of (channelSubscribers (fold (drop_subscriber fd) cs ps)) c \<noteq> Some []"
proof -
  show "channels_of (fold (drop_subscriber fd) cs ps) = channels_of ps"
    by (induction cs arbitrary: ps) simp_all
  have "clientSubscriptions (drop_subscriber fd c ps) = clientSubscriptions ps" for c ps
    by (simp add: drop_subscriber_def Let_def split: option.split)
  then show "clientSubscriptions (fold (drop_subscriber fd) cs ps) = clientSubscriptions ps"
    by (induction cs arbitrary: ps) simp_all
  show "subscribers_of (fold (drop_subscriber fd) cs ps) c =
      (if c \<in> set cs then AList.delete fd (subscribers_of ps c) else subscribers_of ps c)"
    by (induction cs arbitrary: ps) (auto simp: subscribers_of_drop delete_notin AList.delete_eq)
  show "\<forall>c. map_of (channelSubscribers ps) c \<noteq> Some [] \<Longrightarrow>
     \<forall>c. map_of (channelSubscribers (fold (drop_subscriber fd) cs ps)) c \<noteq> Some []"
    by (induction cs arbitrary: ps) (simp_all add: no_empty_channel)
qed

lemma removeClientSubscriptions_inv:
  assumes "pubsub_inv ps"
  shows "pubsub_inv (removeClientSubscriptions fd ps)"
    and "subscribed (removeClientSubscriptions fd ps) = subscribed ps - {fd} \<times> UNIV"
proof -
  let ?r = "removeClientSubscriptions fd ps"
  have ch: "channels_of ?r fd' = (if fd' = fd then [] else channels_of ps fd')" for fd'
    by (auto simp: removeClientSubscriptions_def channels_of_def Let_def fold_drop_subscriber amap.find_erase
        split: option.splits)
  have sub: "subscribers_of ?r c = (if c \<in> set (channels_of ps fd) then AList.delete fd (subscribers_of ps c)
      else subscribers_of ps c)" for c
    by (auto simp: removeClientSubscriptions_def channels_of_def [of ps fd] Let_def fold_drop_subscriber split: option.splits)
  have "\<forall>c. map_of (channelSubscribers ?r) c \<noteq> Some []"
    using assms fold_drop_subscriber(4) [of ps fd]
    by (auto simp: removeClientSubscriptions_def Let_def pubsub_inv_def split: option.splits)
  then show "pubsub_inv ?r"
    using assms by (auto simp: pubsub_inv_def ch sub amap.invar_erase set_keys_delete)
  show "subscribed ?r = subscribed ps - {fd} \<times> UNIV"
    by (auto simp: subscribed_def ch split: if_splits)
qed

lemma fold_remove_inv:
  "pubsub_inv ps \<Longrightarrow> pubsub_inv (fold removeClientSubscriptions fds ps) \<and>
     subscribed (fold removeClientSubscriptions fds ps) = subscribed ps - set fds \<times> UNIV"
proof (induction fds arbitrary: ps)
  case (Cons fd fds)
  then show ?case
    using removeClientSubscriptions_inv [OF Cons.prems, of fd] Cons.IH [of "removeClientSubscriptions fd ps"] by auto
qed simp

lemma publish_spec:
  assumes "pubsub_inv ps" "publish order reachable proto c message ps = (sent, text, ps')"
  shows "distinct (map fst sent)" "set (map fst sent) = {fd. (fd, c) \<in> subscribed ps \<and> reachable fd}"
    and "pubsub_inv ps'" "subscribed ps' = {(fd, c') \<in> subscribed ps. (fd, c) \<in> subscribed ps \<longrightarrow> reachable fd}"
    and "text = (if proto = Resp then '':'' @ show_nat (length sent) @ crlf else show_nat (length sent) @ [LF])"
proof -
  let ?subs = "sort_key (\<lambda>x. order (fst x)) (subscribers_of ps c)"
  let ?failed = "filter (\<lambda>fd. \<not> reachable fd) (map fst ?subs)"
  have sent: "sent = filter (\<lambda>(fd, text). reachable fd) (map (\<lambda>(fd, p). (fd, formatPubSubMessage p c message)) ?subs)"
    and ps': "ps' = fold removeClientSubscriptions ?failed ps"
    and rep: "text = (if proto = Resp then '':'' @ show_nat (length ?subs - length ?failed) @ crlf
        else show_nat (length ?subs - length ?failed) @ [LF])"
    using assms(2) by (auto simp: publish_def Let_def)
  have fds: "map fst sent = filter reachable (map fst ?subs)"
    by (simp add: sent filter_map o_def case_prod_beta)
  have d: "distinct_keys ?subs" using assms(1) by (simp add: pubsub_inv_def)
  have keys: "fst ` set ?subs = {fd. (fd, c) \<in> subscribed ps}"
    using assms(1) by (simp add: pubsub_inv_def subscribed_def set_eq_iff)
  show "distinct (map fst sent)" unfolding fds by (rule distinct_filter [OF d])
  show "set (map fst sent) = {fd. (fd, c) \<in> subscribed ps \<and> reachable fd}" unfolding fds using keys by auto
  show "pubsub_inv ps'" using fold_remove_inv [OF assms(1)] by (simp add: ps')
  have "set ?failed = {fd. (fd, c) \<in> subscribed ps \<and> \<not> reachable fd}" using keys by auto
  then show "subscribed ps' = {(fd, c') \<in> subscribed ps. (fd, c) \<in> subscribed ps \<longrightarrow> reachable fd}"
    using fold_remove_inv [OF assms(1), of ?failed] by (auto simp: ps')
  have "length sent = length (filter reachable (map fst ?subs))" by (metis fds length_map)
  also have "\<dots> = length ?subs - length ?failed"
    using sum_length_filter_compl [of reachable "map fst ?subs"] by simp
  finally show "text = (if proto = Resp then '':'' @ show_nat (length sent) @ crlf else show_nat (length sent) @ [LF])"
    using rep by simp
qed

section \<open>The subscriptions as a machine\<close>

datatype pubsub_event =
    Subscribed int RequestProtocol "string list" | Unsubscribed int RequestProtocol "string list"
  | Published RequestProtocol string string | Left int

fun pubsub_step :: "(string \<Rightarrow> nat) \<Rightarrow> (int \<Rightarrow> nat) \<Rightarrow> (int \<Rightarrow> bool) \<Rightarrow> pubsub_event \<Rightarrow> PubSub \<Rightarrow> PubSub" where
  "pubsub_step corder forder reachable (Subscribed fd proto cs) ps = snd (subscribe fd proto cs ps)"
| "pubsub_step corder forder reachable (Unsubscribed fd proto cs) ps = snd (unsubscribe corder fd proto cs ps)"
| "pubsub_step corder forder reachable (Published proto c message) ps = snd (snd (publish forder reachable proto c message ps))"
| "pubsub_step corder forder reachable (Left fd) ps = removeClientSubscriptions fd ps"

lemma pubsub_step_inv:
  assumes "pubsub_inv ps"
  shows "pubsub_inv (pubsub_step corder forder reachable ev ps)"
proof (cases ev)
  case (Subscribed fd proto cs)
  then show ?thesis using subscribe_inv [OF assms] by simp
next
  case (Unsubscribed fd proto cs)
  then show ?thesis using unsubscribe_inv [OF assms] by simp
next
  case (Published proto c message)
  obtain sent t ps' where "publish forder reachable proto c message ps = (sent, t, ps')" by (metis prod_cases3)
  then show ?thesis using publish_spec(3) [OF assms] Published by simp
next
  case (Left fd)
  then show ?thesis using removeClientSubscriptions_inv(1) [OF assms] by simp
qed

interpretation pubsub: machine "pubsub_step corder forder reachable" "\<lambda>_. True" pubsub_inv for corder forder reachable
  by unfold_locales (rule pubsub_step_inv)

section \<open>Properties\<close>

text \<open>
  C26: the two subscription maps agree in every run: a client is listed under a channel exactly when the
  channel is listed under the client, nobody is listed twice, and no channel stays without
  subscribers.
\<close>

theorem subscriptions_agree:
  "pubsub_inv (run_steps (pubsub_step corder forder reachable) evs no_subscriptions)"
  using pubsub.run_inv [of evs no_subscriptions] pubsub_inv_initial by blast



end
