(* ===== verification/TcpServer.thy ===== *)
theory TcpServer
  imports DataCommands SnapshotPersistence PubSub
begin

text \<open>
  The server of \<open>src/swiftcache/src/networking/TcpServer.cpp\<close> above the sockets: its state, the
  handler of every command it treats itself, the chain in which \<open>handleClient\<close> tries them, and the
  loop over the bytes of a connection. The model is the server \<open>main\<close> builds, with a list of
  databases. A handler computes the text of its response; the common tail of all handlers counts
  a rejected command and encodes the text for the client's protocol. What the outside decides
  during a command is the argument \<open>w\<close>: the environment of the store operations, the file system,
  the clocks, the walk orders of hash tables and which clients can be reached.
\<close>

record ClientConnectionInfo =
  ci_id :: "64 word"
  ci_fd :: int
  ci_databaseIndex :: nat
  ci_protocol :: RequestProtocol
  ci_authenticated :: bool
  ci_name :: string
  ci_connectedAt :: int

record TcpServer =
  srv_stores :: "DataStore list"
  srv_aof :: "Aof option"
  srv_snapshot :: "string option option"
  srv_metrics :: ServerMetrics
  srv_evictionConfig :: EvictionConfig
  srv_authPassword :: string
  srv_readOnly :: bool
  srv_nextClientId :: "64 word"
  srv_clients :: "(int \<times> ClientConnectionInfo) list"
  srv_pubsub :: PubSub

record session =
  ses_fd :: int
  greetingSent :: bool
  authenticated :: bool
  databaseIndex :: nat

record world =
  w_env :: env
  w_snapshot_envs :: "nat \<Rightarrow> env"
  w_aof_io :: aof_io
  w_save_io :: save_io
  w_steady :: int
  w_started :: int
  w_unixSeconds :: int
  w_channel_order :: "string \<Rightarrow> nat"
  w_fd_order :: "int \<Rightarrow> nat"
  w_reachable :: "int \<Rightarrow> bool"

section \<open>Clients\<close>

definition registerClient :: "int \<Rightarrow> int \<Rightarrow> bool \<Rightarrow> TcpServer \<Rightarrow> TcpServer" where
  "registerClient steady fd auth srv =
     (let info = \<lparr>ci_id = srv_nextClientId srv, ci_fd = fd, ci_databaseIndex = 0, ci_protocol = Inline,
                  ci_authenticated = auth, ci_name = [], ci_connectedAt = steady\<rparr>
      in srv\<lparr>srv_nextClientId := srv_nextClientId srv + 1,
             srv_clients := AList.update fd info (srv_clients srv)\<rparr>)"

definition unregisterClient :: "int \<Rightarrow> TcpServer \<Rightarrow> TcpServer" where
  "unregisterClient fd srv = srv\<lparr>srv_clients := AList.delete fd (srv_clients srv)\<rparr>"

definition updateClientState :: "int \<Rightarrow> RequestProtocol \<Rightarrow> nat \<Rightarrow> bool \<Rightarrow> TcpServer \<Rightarrow> TcpServer" where
  "updateClientState fd proto db auth srv =
     (case map_of (srv_clients srv) fd of
        None \<Rightarrow> srv
      | Some info \<Rightarrow>
          srv\<lparr>srv_clients := AList.update fd
            (info\<lparr>ci_protocol := proto, ci_databaseIndex := db, ci_authenticated := auth\<rparr>) (srv_clients srv)\<rparr>)"

text \<open>The age is truncated to whole seconds; the steady clock is in nanoseconds and does not run backwards.\<close>

definition formatClientInfo :: "int \<Rightarrow> PubSub \<Rightarrow> ClientConnectionInfo \<Rightarrow> string" where
  "formatClientInfo steady ps c =
     ''id='' @ show_word (ci_id c) @ '' fd='' @ show_int (ci_fd c) @ '' db='' @ show_nat (ci_databaseIndex c)
     @ '' protocol='' @ protocolName (ci_protocol c) @ '' authenticated='' @ flag (ci_authenticated c)
     @ '' name='' @ (if ci_name c = [] then ''-'' else ci_name c)
     @ '' subscriptions='' @ show_nat (clientSubscriptionCount ps (ci_fd c))
     @ '' age_seconds='' @ show_int ((steady - ci_connectedAt c) div 1000000000) @ [LF]"

definition parseUnsignedId :: "string \<Rightarrow> nat option" where
  "parseUnsignedId value =
     (if value = [] \<or> hd value = CHR ''-'' then None
      else (case stoull value of None \<Rightarrow> None | Some (v, used) \<Rightarrow> if used = length value then Some v else None))"

section \<open>Handlers\<close>

text \<open>The tail of every handler: count a rejection, encode, send.\<close>

definition reject :: "TcpServer \<Rightarrow> TcpServer" where
  "reject srv = srv\<lparr>srv_metrics := commandRejected (srv_metrics srv)\<rparr>"

definition count_rejected :: "string \<Rightarrow> TcpServer \<Rightarrow> TcpServer" where
  "count_rejected text srv = (if isRejectedResponse text then reject srv else srv)"

abbreviation upper_name :: "string list \<Rightarrow> string" where
  "upper_name ts \<equiv> toUpper (hd ts)"

definition handleAuthCommand :: "string list \<Rightarrow> session \<Rightarrow> TcpServer \<Rightarrow> (string \<times> session) option" where
  "handleAuthCommand ts ses srv =
     (if upper_name ts \<noteq> ''AUTH'' then None
      else Some
        (if srv_authPassword srv = [] then (''ERR AUTH called without any password configured'' @ [LF], ses)
         else if length ts \<noteq> 2 then (''ERR wrong number of arguments for AUTH'' @ [LF], ses)
         else if ts ! 1 \<noteq> srv_authPassword srv then (''ERR invalid password'' @ [LF], ses)
         else (''OK'' @ [LF], ses\<lparr>authenticated := True\<rparr>)))"

definition handleReadOnlyCommand :: "string list \<Rightarrow> TcpServer \<Rightarrow> (string \<times> TcpServer) option" where
  "handleReadOnlyCommand ts srv =
     (if upper_name ts \<noteq> ''READONLY'' then None
      else Some
        (if length ts = 1 then (flag (srv_readOnly srv) @ [LF], srv)
         else if length ts = 2 \<and> toUpper (ts ! 1) = ''ON'' then (''OK'' @ [LF], srv\<lparr>srv_readOnly := True\<rparr>)
         else if length ts = 2 \<and> toUpper (ts ! 1) = ''OFF'' then (''OK'' @ [LF], srv\<lparr>srv_readOnly := False\<rparr>)
         else (''ERR usage: READONLY [ON|OFF]'' @ [LF], srv)))"

definition config_values :: "TcpServer \<Rightarrow> (string \<times> string) list" where
  "config_values srv =
     [(''databases'', show_nat (length (srv_stores srv))),
      (''readonly'', if srv_readOnly srv then ''true'' else ''false''),
      (''max_keys'', show_nat (maxKeys (srv_evictionConfig srv))),
      (''max_memory'', show_nat (maxMemoryBytes (srv_evictionConfig srv))),
      (''eviction_policy'', evictionPolicyName (policy (srv_evictionConfig srv))),
      (''requirepass'', if srv_authPassword srv = [] then [] else ''******'')]"

definition toLowerAscii :: "string \<Rightarrow> string" where
  "toLowerAscii value = map tolower value"

definition handleConfigCommand :: "string list \<Rightarrow> TcpServer \<Rightarrow> string option" where
  "handleConfigCommand ts srv =
     (if upper_name ts \<noteq> ''CONFIG'' then None
      else Some
        (if length ts \<noteq> 3 \<or> toUpper (ts ! 1) \<noteq> ''GET'' then ''ERR usage: CONFIG GET key'' @ [LF]
         else (let key = toLowerAscii (ts ! 2)
               in concat (map (\<lambda>(n, v). n @ [LF] @ v @ [LF])
                    (filter (\<lambda>(n, v). key = ''*'' \<or> key = n) (config_values srv))))))"

definition handleCommandCommand :: "string list \<Rightarrow> TcpServer \<Rightarrow> string option" where
  "handleCommandCommand ts srv =
     (if upper_name ts \<noteq> ''COMMAND'' then None
      else Some
        (if length ts \<noteq> 2 \<or> toUpper (ts ! 1) \<noteq> ''STATS'' then ''ERR usage: COMMAND STATS'' @ [LF]
         else concat (map (\<lambda>(c, n). c @ '' '' @ show_word n @ [LF]) (commandCounts (srv_metrics srv)))))"

text \<open>The response, the state, and the descriptor that is closed afterwards.\<close>

definition handleClientCommand :: "world \<Rightarrow> int \<Rightarrow> string list \<Rightarrow> TcpServer \<Rightarrow> (string \<times> TcpServer \<times> int option) option" where
  "handleClientCommand w fd ts srv =
     (if upper_name ts \<noteq> ''CLIENT'' then None
      else let sub = (if length ts \<ge> 2 then toUpper (ts ! 1) else []);
               self = map_of (srv_clients srv) fd in
        Some
         (if sub = ''COUNT'' \<and> length ts = 2
          then (show_word (connectedClients (srv_metrics srv)) @ [LF], srv, None)
          else if sub = ''LIST'' \<and> length ts = 2
          then (concat (map (formatClientInfo (w_steady w) (srv_pubsub srv))
                  (sort_key (\<lambda>c. unat (ci_id c)) (map snd (srv_clients srv)))), srv, None)
          else if sub = ''INFO'' \<and> length ts = 2
          then (case self of None \<Rightarrow> [] | Some c \<Rightarrow> formatClientInfo (w_steady w) (srv_pubsub srv) c, srv, None)
          else if sub = ''SETNAME'' \<and> length ts = 3
          then (''OK'' @ [LF],
                case self of None \<Rightarrow> srv
                  | Some c \<Rightarrow> srv\<lparr>srv_clients := AList.update fd (c\<lparr>ci_name := ts ! 2\<rparr>) (srv_clients srv)\<rparr>, None)
          else if sub = ''GETNAME'' \<and> length ts = 2
          then (case self of None \<Rightarrow> nil_text @ [LF]
                  | Some c \<Rightarrow> (if ci_name c = [] then nil_text else ci_name c) @ [LF], srv, None)
          else if sub = ''KILL'' \<and> length ts = 3
          then (case parseUnsignedId (ts ! 2) of
                  None \<Rightarrow> (''ERR invalid client id'' @ [LF], srv, None)
                | Some n \<Rightarrow>
                    (case find (\<lambda>(fd', c). unat (ci_id c) = n) (srv_clients srv) of
                       None \<Rightarrow> (''0'' @ [LF], srv, None)
                     | Some (fd', c) \<Rightarrow>
                         ((if fd' \<ge> 0 then ''1'' else ''0'') @ [LF], srv, if fd' \<ge> 0 then Some fd' else None)))
          else (''ERR usage: CLIENT LIST|COUNT|INFO|GETNAME|SETNAME name|KILL id'' @ [LF], srv, None)))"

definition save_all :: "world \<Rightarrow> string option \<Rightarrow> DataStore list \<Rightarrow> (bool \<times> string option \<times> DataStore list) outcome" where
  "save_all w file stores = snapshot_save (w_snapshot_envs w) (w_save_io w) file stores"

text \<open>
  \<open>SAVE\<close> and the snapshot worker save the same way: through the append-only file when there is one,
  which is truncated after a successful save.
\<close>

definition saveSnapshot :: "world \<Rightarrow> string option \<Rightarrow> TcpServer \<Rightarrow> (bool \<times> TcpServer) outcome" where
  "saveSnapshot w file srv =
     and_then
       (case srv_aof srv of
          None \<Rightarrow> and_then (save_all w file (srv_stores srv))
            (\<lambda>(saved, file', stores'). Inr (saved, (file', stores'), None))
        | Some a \<Rightarrow> and_then
            (checkpoint (w_aof_io w)
              (and_then (save_all w file (srv_stores srv)) (\<lambda>(saved, st). Inr (saved, st))) a)
            (\<lambda>(saved, st, a'). Inr (saved, st, Some a')))
       (\<lambda>(saved, (file', stores'), aof').
          Inr (saved, srv\<lparr>srv_stores := stores', srv_snapshot := Some file', srv_aof := aof'\<rparr>))"

definition handlePersistenceCommand :: "world \<Rightarrow> string list \<Rightarrow> TcpServer \<Rightarrow> (string \<times> TcpServer) outcome option" where
  "handlePersistenceCommand w ts srv =
     (if upper_name ts = ''LASTSAVE'' then
        Some (Inr (if length ts \<noteq> 1 then ''ERR wrong number of arguments for LASTSAVE'' @ [LF]
                   else show_word (lastSnapshotUnixSeconds (srv_metrics srv)) @ [LF], srv))
      else if upper_name ts = ''SAVE'' then
        Some
          (if length ts \<noteq> 1 then Inr (''ERR wrong number of arguments for SAVE'' @ [LF], srv)
           else (case srv_snapshot srv of
                   None \<Rightarrow> Inr (''ERR snapshot persistence is disabled'' @ [LF], srv)
                 | Some file \<Rightarrow>
                     and_then (saveSnapshot w file srv) (\<lambda>(saved, srv').
                       Inr (if saved
                            then (''OK'' @ [LF],
                                  srv'\<lparr>srv_metrics := snapshotSaved (w_unixSeconds w) (srv_metrics srv')\<rparr>)
                            else (''ERR failed to save snapshot'' @ [LF], srv')))))
      else None)"

definition rejectReadOnlyWrite :: "string list \<Rightarrow> TcpServer \<Rightarrow> string option" where
  "rejectReadOnlyWrite ts srv =
     (if \<not> srv_readOnly srv \<or> isAllowedInReadOnly ts then None
      else Some (''ERR server is read-only'' @ [LF]))"

definition handleSelectCommand :: "string list \<Rightarrow> session \<Rightarrow> TcpServer \<Rightarrow> (string \<times> session) option" where
  "handleSelectCommand ts ses srv =
     (if upper_name ts \<noteq> ''SELECT'' then None
      else Some
        (if length ts \<noteq> 2 then (''ERR wrong number of arguments for SELECT'' @ [LF], ses)
         else (case parseDatabaseIndex (ts ! 1) (length (srv_stores srv)) of
                 None \<Rightarrow> (''ERR DB index is out of range'' @ [LF], ses)
               | Some db \<Rightarrow> (''OK'' @ [LF], ses\<lparr>databaseIndex := db\<rparr>))))"

text \<open>
  The messages for other clients, the response and the state. Only an error is formatted for RESP
  here: the other responses are built in the client's protocol.
\<close>

definition handlePubSubCommand :: "world \<Rightarrow> int \<Rightarrow> RequestProtocol \<Rightarrow> string list \<Rightarrow> TcpServer
    \<Rightarrow> ((int \<times> string) list \<times> string \<times> TcpServer) option" where
  "handlePubSubCommand w fd proto ts srv =
     (if upper_name ts = ''SUBSCRIBE'' then
        Some (if length ts < 2 then ([], ''ERR wrong number of arguments for SUBSCRIBE'' @ [LF], srv)
              else (let (r, ps) = subscribe fd proto (tl ts) (srv_pubsub srv) in ([], r, srv\<lparr>srv_pubsub := ps\<rparr>)))
      else if upper_name ts = ''UNSUBSCRIBE'' then
        Some (let (r, ps) = unsubscribe (w_channel_order w) fd proto (tl ts) (srv_pubsub srv)
              in ([], r, srv\<lparr>srv_pubsub := ps\<rparr>))
      else if upper_name ts = ''PUBLISH'' then
        Some (if length ts \<noteq> 3 then ([], ''ERR wrong number of arguments for PUBLISH'' @ [LF], srv)
              else (let (sent, r, ps) = publish (w_fd_order w) (w_reachable w) proto (ts ! 1) (ts ! 2) (srv_pubsub srv)
                    in (sent, r, srv\<lparr>srv_pubsub := ps\<rparr>)))
      else None)"

definition info_of :: "world \<Rightarrow> TcpServer \<Rightarrow> info_sources" where
  "info_of w srv =
     \<lparr>info_metrics = srv_metrics srv,
      info_aof_size = (case srv_aof srv of None \<Rightarrow> 0 | Some a \<Rightarrow> aof_sizeBytes a),
      info_uptime = (w_steady w - w_started w) div 1000000000\<rparr>"

section \<open>One command of a client\<close>

text \<open>
  What a command does: the bytes sent, in order and with their receivers; the session; the server;
  whether the connection ends; a descriptor closed by \<open>CLIENT KILL\<close>.
\<close>

record effect =
  eff_sent :: "(int \<times> string) list"
  eff_session :: session
  eff_server :: TcpServer
  eff_closed :: bool
  eff_killed :: "int option"

definition effect_of :: "(int \<times> string) list \<Rightarrow> session \<Rightarrow> TcpServer \<Rightarrow> effect" where
  "effect_of sent ses srv =
     \<lparr>eff_sent = sent, eff_session = ses, eff_server = srv, eff_closed = False, eff_killed = None\<rparr>"

definition note_client :: "ParsedCommand \<Rightarrow> session \<Rightarrow> TcpServer \<Rightarrow> TcpServer" where
  "note_client c ses srv = updateClientState (ses_fd ses) (protocol c) (databaseIndex ses) (authenticated ses) srv"

text \<open>The usual end of a handler, with its response in plain text.\<close>

definition respond :: "ParsedCommand \<Rightarrow> session \<Rightarrow> string \<Rightarrow> TcpServer \<Rightarrow> effect" where
  "respond c ses text srv =
     effect_of [(ses_fd ses, encode_for (protocol c) text)] ses (count_rejected text srv)"

text \<open>Removal of a connection that ends.\<close>

definition disconnect :: "int \<Rightarrow> TcpServer \<Rightarrow> TcpServer" where
  "disconnect fd srv =
     (let srv' = unregisterClient fd (srv\<lparr>srv_pubsub := removeClientSubscriptions fd (srv_pubsub srv)\<rparr>)
      in srv'\<lparr>srv_metrics := clientDisconnected (srv_metrics srv')\<rparr>)"

text \<open>
  The commands that reach the databases. A failed send ends the connection only for the commands
  of the registry.
\<close>

definition run_data_command :: "world \<Rightarrow> ParsedCommand \<Rightarrow> session \<Rightarrow> TcpServer \<Rightarrow> effect outcome" where
  "run_data_command w c ses srv =
     and_then (data_command (info_of w srv) (w_env w) (w_aof_io w) (tokens c) (databaseIndex ses)
                (srv_stores srv) (srv_aof srv))
       (\<lambda>(res, stores', appended, aof').
          let srv' = srv\<lparr>srv_stores := stores', srv_aof := aof'\<rparr>;
              eff = respond c ses (response res) srv'
          in Inr (if upper_name (tokens c) \<in> {''MOVE'', ''FLUSHALL''}
                    \<or> (w_reachable w (ses_fd ses) \<and> \<not> closeConnection res) then eff
                  else eff\<lparr>eff_server := disconnect (ses_fd ses) (eff_server eff), eff_closed := True\<rparr>))"

text \<open>
  The chain of \<open>handleClient\<close> for a command with at least one token, from its end: the read-only
  check and the commands on the databases and channels; the commands on the server itself before
  them; and the check of the password, which comes first.
\<close>

definition handleData :: "world \<Rightarrow> ParsedCommand \<Rightarrow> session \<Rightarrow> TcpServer \<Rightarrow> effect outcome" where
  "handleData w c ses srv =
     (case rejectReadOnlyWrite (tokens c) srv of
        Some text \<Rightarrow> Inr (effect_of [(ses_fd ses, encode_for (protocol c) text)] ses (reject srv))
      | None \<Rightarrow>
          if upper_name (tokens c) \<in> {''MOVE'', ''FLUSHALL''} then run_data_command w c ses srv
          else case handlePubSubCommand w (ses_fd ses) (protocol c) (tokens c) srv of
               Some (sent, text, srv') \<Rightarrow>
                 Inr (effect_of
                   (sent @ [(ses_fd ses, if isRejectedResponse text then encode_for (protocol c) text else text)]) ses
                   (count_rejected text srv'))
             | None \<Rightarrow> run_data_command w c ses srv)"

definition handleAuthenticated :: "world \<Rightarrow> ParsedCommand \<Rightarrow> session \<Rightarrow> TcpServer \<Rightarrow> effect outcome" where
  "handleAuthenticated w c ses srv =
     (case handleReadOnlyCommand (tokens c) srv of
           Some (text, srv') \<Rightarrow> Inr (respond c ses text srv')
         | None \<Rightarrow>
      case handleConfigCommand (tokens c) srv of
           Some text \<Rightarrow> Inr (respond c ses text srv)
         | None \<Rightarrow>
      case handleCommandCommand (tokens c) srv of
           Some text \<Rightarrow> Inr (respond c ses text srv)
         | None \<Rightarrow>
      case handleClientCommand w (ses_fd ses) (tokens c) srv of
           Some (text, srv', killed) \<Rightarrow> Inr ((respond c ses text srv')\<lparr>eff_killed := killed\<rparr>)
         | None \<Rightarrow>
      case handlePersistenceCommand w (tokens c) srv of
           Some m \<Rightarrow> and_then m (\<lambda>(text, srv'). Inr (respond c ses text srv'))
         | None \<Rightarrow>
      case handleSelectCommand (tokens c) ses srv of
           Some (text, ses') \<Rightarrow>
             Inr (let eff = respond c ses' text srv in eff\<lparr>eff_server := note_client c ses' (eff_server eff)\<rparr>)
         | None \<Rightarrow> handleData w c ses srv)"

text \<open>The server as the handlers find it: the command counted and the client's record refreshed.\<close>

definition noted :: "ParsedCommand \<Rightarrow> session \<Rightarrow> TcpServer \<Rightarrow> TcpServer" where
  "noted c ses srv = note_client c ses
     (srv\<lparr>srv_metrics := commandExecuted (upper_name (tokens c)) (srv_metrics srv)\<rparr>)"

text \<open>The refusal of a client that has not given the password yet.\<close>

definition requireAuthenticatedClient :: "RequestProtocol \<Rightarrow> bool \<Rightarrow> string option" where
  "requireAuthenticatedClient proto auth =
     (if auth then None else Some (encode_for proto (''NOAUTH Authentication required'' @ [LF])))"

definition handleCommand :: "world \<Rightarrow> ParsedCommand \<Rightarrow> session \<Rightarrow> TcpServer \<Rightarrow> effect outcome" where
  "handleCommand w c ses srv0 =
     (let srv = noted c ses srv0
      in case handleAuthCommand (tokens c) ses srv of
           Some (text, ses') \<Rightarrow>
             Inr (let eff = respond c ses' text srv in eff\<lparr>eff_server := note_client c ses' (eff_server eff)\<rparr>)
         | None \<Rightarrow>
      case requireAuthenticatedClient (protocol c) (authenticated ses) of
           Some refusal \<Rightarrow> Inr (effect_of [(ses_fd ses, refusal)] ses (reject srv))
         | None \<Rightarrow> handleAuthenticated w c ses srv)"

lemma handleCommand_unfold:
  "handleCommand w c ses srv0 =
     (let srv = noted c ses srv0
      in case handleAuthCommand (tokens c) ses srv of
           Some (text, ses') \<Rightarrow>
             Inr (let eff = respond c ses' text srv in eff\<lparr>eff_server := note_client c ses' (eff_server eff)\<rparr>)
         | None \<Rightarrow>
      if \<not> authenticated ses then
        Inr (effect_of [(ses_fd ses, encode_for (protocol c) (''NOAUTH Authentication required'' @ [LF]))] ses (reject srv))
      else handleAuthenticated w c ses srv)"
  by (cases "authenticated ses") (simp_all add: handleCommand_def requireAuthenticatedClient_def Let_def split: option.split)

section \<open>A connection\<close>

text \<open>The greeting goes out before the first command in the inline protocol.\<close>

definition greeting :: string where
  "greeting = ''Connected to SwiftCache'' @ [LF]"

definition handleRequest :: "world \<Rightarrow> ParsedCommand \<Rightarrow> session \<Rightarrow> TcpServer \<Rightarrow> effect outcome" where
  "handleRequest w c ses srv =
     (let greet = (\<not> greetingSent ses \<and> protocol c = Inline);
          hello = (if greet then [(ses_fd ses, greeting)] else []);
          ses' = (if greet then ses\<lparr>greetingSent := True\<rparr> else ses)
      in if greet \<and> \<not> w_reachable w (ses_fd ses)
         then Inr (effect_of hello ses (disconnect (ses_fd ses) srv)\<lparr>eff_closed := True\<rparr>)
         else if tokens c = [] then Inr (effect_of hello ses' srv)
         else and_then (handleCommand w c ses' srv)
                (\<lambda>eff. Inr (eff\<lparr>eff_sent := hello @ eff_sent eff\<rparr>)))"

definition open_session :: "int \<Rightarrow> TcpServer \<Rightarrow> session" where
  "open_session fd srv =
     \<lparr>ses_fd = fd, greetingSent = False, authenticated = (srv_authPassword srv = []), databaseIndex = 0\<rparr>"

definition connect :: "int \<Rightarrow> int \<Rightarrow> TcpServer \<Rightarrow> session \<times> TcpServer" where
  "connect steady fd srv =
     (open_session fd srv,
      registerClient steady fd (srv_authPassword srv = [])
        (srv\<lparr>srv_metrics := clientConnected (srv_metrics srv)\<rparr>))"

text \<open>The commands parsed from one chunk; the rest is dropped when the connection ends.\<close>

fun handleRequests :: "(nat \<Rightarrow> world) \<Rightarrow> nat \<Rightarrow> ParsedCommand list \<Rightarrow> session \<Rightarrow> TcpServer
    \<Rightarrow> ((int \<times> string) list \<times> session \<times> TcpServer \<times> bool) outcome" where
  "handleRequests ws i [] ses srv = Inr ([], ses, srv, False)"
| "handleRequests ws i (c # cs) ses srv =
     and_then (handleRequest (ws i) c ses srv) (\<lambda>eff.
       if eff_closed eff then Inr (eff_sent eff, eff_session eff, eff_server eff, True)
       else and_then (handleRequests ws (Suc i) cs (eff_session eff) (eff_server eff))
              (\<lambda>(sent, ses', srv', closed). Inr (eff_sent eff @ sent, ses', srv', closed)))"

section \<open>What a command can change\<close>

lemma keep_note_client [simp]:
  "srv_stores (note_client c ses srv) = srv_stores srv" "srv_aof (note_client c ses srv) = srv_aof srv"
  "srv_snapshot (note_client c ses srv) = srv_snapshot srv" "srv_pubsub (note_client c ses srv) = srv_pubsub srv"
  "srv_readOnly (note_client c ses srv) = srv_readOnly srv" "srv_metrics (note_client c ses srv) = srv_metrics srv"
  "srv_authPassword (note_client c ses srv) = srv_authPassword srv"
  by (simp_all add: note_client_def updateClientState_def split: option.split)

lemma keep_noted [simp]:
  "srv_stores (noted c ses srv) = srv_stores srv" "srv_aof (noted c ses srv) = srv_aof srv"
  "srv_snapshot (noted c ses srv) = srv_snapshot srv" "srv_pubsub (noted c ses srv) = srv_pubsub srv"
  "srv_readOnly (noted c ses srv) = srv_readOnly srv" "srv_authPassword (noted c ses srv) = srv_authPassword srv"
  by (simp_all add: noted_def)

lemma keep_count_rejected [simp]:
  "srv_stores (count_rejected t srv) = srv_stores srv" "srv_aof (count_rejected t srv) = srv_aof srv"
  "srv_snapshot (count_rejected t srv) = srv_snapshot srv" "srv_pubsub (count_rejected t srv) = srv_pubsub srv"
  "srv_readOnly (count_rejected t srv) = srv_readOnly srv"
  "srv_stores (reject srv) = srv_stores srv" "srv_aof (reject srv) = srv_aof srv"
  "srv_snapshot (reject srv) = srv_snapshot srv" "srv_pubsub (reject srv) = srv_pubsub srv"
  "srv_readOnly (reject srv) = srv_readOnly srv"
  by (simp_all add: count_rejected_def reject_def)

lemma keep_disconnect [simp]:
  "srv_stores (disconnect fd srv) = srv_stores srv" "srv_aof (disconnect fd srv) = srv_aof srv"
  "srv_snapshot (disconnect fd srv) = srv_snapshot srv" "srv_readOnly (disconnect fd srv) = srv_readOnly srv"
  "srv_pubsub (disconnect fd srv) = removeClientSubscriptions fd (srv_pubsub srv)"
  by (simp_all add: disconnect_def unregisterClient_def Let_def)

lemma respond_simps [simp]:
  "eff_sent (respond c ses t srv) = [(ses_fd ses, encode_for (protocol c) t)]"
  "eff_session (respond c ses t srv) = ses" "eff_server (respond c ses t srv) = count_rejected t srv"
  "eff_closed (respond c ses t srv) = False" "eff_killed (respond c ses t srv) = None"
  by (simp_all add: respond_def effect_of_def)

lemma effect_of_simps [simp]:
  "eff_sent (effect_of sent ses srv) = sent" "eff_session (effect_of sent ses srv) = ses"
  "eff_server (effect_of sent ses srv) = srv" "eff_closed (effect_of sent ses srv) = False"
  "eff_killed (effect_of sent ses srv) = None"
  by (simp_all add: effect_of_def)

text \<open>The data of a server: its databases and files.\<close>

definition same_data :: "TcpServer \<Rightarrow> TcpServer \<Rightarrow> bool" where
  "same_data srv srv' \<longleftrightarrow> srv_stores srv' = srv_stores srv \<and> srv_aof srv' = srv_aof srv \<and> srv_snapshot srv' = srv_snapshot srv"

lemma run_data_command_cases:
  assumes "run_data_command w c ses srv = Inr eff"
  obtains res appended where
    "data_command (info_of w srv) (w_env w) (w_aof_io w) (tokens c) (databaseIndex ses) (srv_stores srv) (srv_aof srv)
       = Inr (res, srv_stores (eff_server eff), appended, srv_aof (eff_server eff))"
    "eff_sent eff = [(ses_fd ses, encode_for (protocol c) (response res))]" "eff_session eff = ses"
    "srv_snapshot (eff_server eff) = srv_snapshot srv" "srv_readOnly (eff_server eff) = srv_readOnly srv"
    "srv_pubsub (eff_server eff) = srv_pubsub srv \<or> srv_pubsub (eff_server eff) = removeClientSubscriptions (ses_fd ses) (srv_pubsub srv)"
proof -
  let ?srv' = "\<lambda>st a. srv\<lparr>srv_stores := st, srv_aof := a\<rparr>"
  obtain res st ok a where d: "data_command (info_of w srv) (w_env w) (w_aof_io w) (tokens c) (databaseIndex ses)
      (srv_stores srv) (srv_aof srv) = Inr (res, st, ok, a)"
    and eff: "eff = respond c ses (response res) (?srv' st a) \<or>
      eff = (respond c ses (response res) (?srv' st a))\<lparr>eff_server := disconnect (ses_fd ses)
        (eff_server (respond c ses (response res) (?srv' st a))), eff_closed := True\<rparr>"
    using assms unfolding run_data_command_def Let_def by (auto split: if_splits)
  from eff show thesis
  proof (elim disjE)
    assume e: "eff = respond c ses (response res) (?srv' st a)"
    show thesis by (rule that [of res ok]) (simp_all add: d e)
  next
    assume e: "eff = (respond c ses (response res) (?srv' st a))\<lparr>eff_server := disconnect (ses_fd ses)
        (eff_server (respond c ses (response res) (?srv' st a))), eff_closed := True\<rparr>"
    show thesis by (rule that [of res ok]) (simp_all add: d e)
  qed
qed

lemma saveSnapshot_cases:
  assumes "saveSnapshot w f srv = Inr (saved, srv')"
  obtains saved' f' aof' where "save_all w f (srv_stores srv) = Inr (saved', f', srv_stores srv')"
    "srv' = srv\<lparr>srv_stores := srv_stores srv', srv_snapshot := Some f', srv_aof := aof'\<rparr>"
  using assms
  by (cases "srv_aof srv") (auto simp: saveSnapshot_def checkpoint_def Let_def split: if_splits)

lemma handlePersistence_cases:
  assumes h: "handlePersistenceCommand w ts srv = Some (Inr (text, srv'))"
  shows "srv_pubsub srv' = srv_pubsub srv \<and> srv_readOnly srv' = srv_readOnly srv \<and>
    (same_data srv srv' \<or>
     upper_name ts = ''SAVE'' \<and> (\<exists>saved file file'. save_all w file (srv_stores srv) = Inr (saved, file', srv_stores srv')))"
proof (cases "upper_name ts = ''SAVE'' \<and> length ts = 1 \<and> srv_snapshot srv \<noteq> None")
  case False
  then show ?thesis
    using h by (auto simp: handlePersistenceCommand_def same_data_def split: if_splits)
next
  case True
  then obtain f saved srv1 where s: "saveSnapshot w f srv = Inr (saved, srv1)"
      and srv': "srv' = srv1 \<or> srv' = srv1\<lparr>srv_metrics := snapshotSaved (w_unixSeconds w) (srv_metrics srv1)\<rparr>"
    using h by (auto simp: handlePersistenceCommand_def split: if_splits)
  from s show ?thesis
  proof (cases rule: saveSnapshot_cases)
    case (1 saved' f' aof')
    have "srv_pubsub srv1 = srv_pubsub srv" "srv_readOnly srv1 = srv_readOnly srv"
      by (subst 1(2), simp)+
    then show ?thesis using 1(1) srv' True by auto
  qed
qed

lemma same_data_simps [simp]:
  "same_data srv srv" "same_data srv (srv'\<lparr>srv_pubsub := ps\<rparr>) = same_data srv srv'"
  "same_data srv (count_rejected t srv') = same_data srv srv'"
  "same_data srv (note_client c ses srv') = same_data srv srv'"
  "same_data srv (srv'\<lparr>srv_metrics := m\<rparr>) = same_data srv srv'"
  "same_data srv (srv'\<lparr>srv_readOnly := b\<rparr>) = same_data srv srv'"
  "same_data srv (srv'\<lparr>srv_clients := cl\<rparr>) = same_data srv srv'"
  "same_data srv (reject srv') = same_data srv srv'"
  "same_data (noted c ses srv) srv' = same_data srv srv'"
  "same_data srv (noted c ses srv') = same_data srv srv'"
  by (simp_all add: same_data_def)

lemma handler_data:
  "handleReadOnlyCommand ts srv = Some (t, srv') \<Longrightarrow> same_data srv srv' \<and> srv_pubsub srv' = srv_pubsub srv"
  "handleClientCommand w fd ts srv = Some (t, srv'', k) \<Longrightarrow>
     same_data srv srv'' \<and> srv_pubsub srv'' = srv_pubsub srv \<and> srv_readOnly srv'' = srv_readOnly srv"
  "handlePubSubCommand w fd proto ts srv = Some (sent, t, srv3) \<Longrightarrow>
     same_data srv srv3 \<and> srv_readOnly srv3 = srv_readOnly srv"
proof -
  show "handleReadOnlyCommand ts srv = Some (t, srv') \<Longrightarrow> same_data srv srv' \<and> srv_pubsub srv' = srv_pubsub srv"
    by (auto simp: handleReadOnlyCommand_def split: if_splits)
  show "handleClientCommand w fd ts srv = Some (t, srv'', k) \<Longrightarrow>
     same_data srv srv'' \<and> srv_pubsub srv'' = srv_pubsub srv \<and> srv_readOnly srv'' = srv_readOnly srv"
    by (auto simp: handleClientCommand_def Let_def split: if_splits option.splits)
  show "handlePubSubCommand w fd proto ts srv = Some (sent, t, srv3) \<Longrightarrow>
     same_data srv srv3 \<and> srv_readOnly srv3 = srv_readOnly srv"
    by (auto simp: handlePubSubCommand_def Let_def case_prod_unfold split: if_splits)
qed

text \<open>
  A command keeps the two subscription maps in agreement and the client's database index in
  range, and answers its client once (\<open>PUBLISH\<close> also sends the message to the subscribers).
\<close>

definition others_ok :: "ParsedCommand \<Rightarrow> session \<Rightarrow> TcpServer \<Rightarrow> effect \<Rightarrow> bool" where
  "others_ok c ses srv eff \<longleftrightarrow>
     (pubsub_inv (srv_pubsub srv) \<longrightarrow> pubsub_inv (srv_pubsub (eff_server eff))) \<and>
     (databaseIndex ses < length (srv_stores srv) \<longrightarrow> databaseIndex (eff_session eff) < length (srv_stores srv)) \<and>
     ses_fd (eff_session eff) = ses_fd ses \<and>
     (\<exists>messages bytes. eff_sent eff = messages @ [(ses_fd ses, bytes)] \<and>
        (upper_name (tokens c) \<noteq> ''PUBLISH'' \<longrightarrow> messages = []))"

lemma parseDatabaseIndex_less: "parseDatabaseIndex raw n = Some db \<Longrightarrow> db < n"
  by (auto simp: parseDatabaseIndex_def split: if_splits option.splits prod.splits)

lemma handler_sessions:
  "handleAuthCommand ts ses srv = Some (t, ses') \<Longrightarrow> ses_fd ses' = ses_fd ses \<and> databaseIndex ses' = databaseIndex ses"
  "handleSelectCommand ts ses srv = Some (t, ses'') \<Longrightarrow> ses_fd ses'' = ses_fd ses \<and>
     (databaseIndex ses < length (srv_stores srv) \<longrightarrow> databaseIndex ses'' < length (srv_stores srv))"
  by (auto simp: handleAuthCommand_def handleSelectCommand_def parseDatabaseIndex_less split: if_splits option.splits)

lemma handlePubSub_inv:
  assumes "handlePubSubCommand w fd proto ts srv = Some (sent, t, srv')"
  shows "(pubsub_inv (srv_pubsub srv) \<longrightarrow> pubsub_inv (srv_pubsub srv')) \<and> (upper_name ts \<noteq> ''PUBLISH'' \<longrightarrow> sent = [])"
  using assms subscribe_inv unsubscribe_inv publish_spec(3)
  by (auto simp: handlePubSubCommand_def Let_def case_prod_unfold prod_eq_iff split: if_splits)

lemma run_data_others:
  assumes "run_data_command w c ses srv = Inr eff"
  shows "others_ok c ses srv eff"
  using assms
proof (cases rule: run_data_command_cases)
  case (1 res appended)
  have "pubsub_inv (srv_pubsub (eff_server eff))" if "pubsub_inv (srv_pubsub srv)"
    using 1(6)
  proof
    assume "srv_pubsub (eff_server eff) = srv_pubsub srv"
    with that show ?thesis by simp
  next
    assume "srv_pubsub (eff_server eff) = removeClientSubscriptions (ses_fd ses) (srv_pubsub srv)"
    with that show ?thesis by (simp add: removeClientSubscriptions_inv(1))
  qed
  then show ?thesis using 1(2,3) by (simp add: others_ok_def)
qed

text \<open>
  A command leaves the data alone, or is \<open>SAVE\<close>, or is a data command that the read-only check let
  pass.
\<close>

definition harmless :: "ParsedCommand \<Rightarrow> session \<Rightarrow> TcpServer \<Rightarrow> effect \<Rightarrow> bool" where
  "harmless c ses srv eff \<longleftrightarrow> same_data srv (eff_server eff) \<and> others_ok c ses srv eff"

lemma others_ok_noted [simp]: "others_ok c ses (noted c ses srv) eff = others_ok c ses srv eff"
  by (simp add: others_ok_def)

lemma harmless_noted [simp]: "harmless c ses (noted c ses srv) eff = harmless c ses srv eff"
  by (simp add: harmless_def)

lemma harmless_respond:
  assumes "same_data srv srv'" "srv_pubsub srv' = srv_pubsub srv"
  shows "harmless c ses srv (respond c ses t srv')" "harmless c ses srv ((respond c ses t srv')\<lparr>eff_killed := k\<rparr>)"
    "harmless c ses srv (effect_of [(ses_fd ses, bytes)] ses srv')"
  using assms by (simp_all add: harmless_def others_ok_def)

lemma harmless_respond_session:
  assumes "ses_fd ses' = ses_fd ses"
    and "databaseIndex ses < length (srv_stores srv) \<Longrightarrow> databaseIndex ses' < length (srv_stores srv)"
  shows "harmless c ses srv (let eff = respond c ses' t srv in eff\<lparr>eff_server := note_client c ses' (eff_server eff)\<rparr>)"
  using assms by (simp add: harmless_def others_ok_def Let_def)

lemma handleData_cases:
  assumes "handleData w c ses srv = Inr eff"
  obtains (same) "harmless c ses srv eff"
    | (data) "rejectReadOnlyWrite (tokens c) srv = None" "run_data_command w c ses srv = Inr eff"
proof (cases "rejectReadOnlyWrite (tokens c) srv")
  case (Some t)
  then have "eff = effect_of [(ses_fd ses, encode_for (protocol c) t)] ses (reject srv)"
    using assms by (simp add: handleData_def)
  then have "harmless c ses srv eff" by (simp add: harmless_respond(3))
  then show thesis by (rule same)
next
  case rej: None
  show thesis
  proof (cases "run_data_command w c ses srv = Inr eff")
    case True
    with rej show thesis by (rule data)
  next
    case False
    then obtain sent t srv' where p: "handlePubSubCommand w (ses_fd ses) (protocol c) (tokens c) srv = Some (sent, t, srv')"
      and eff: "eff = effect_of (sent @ [(ses_fd ses, if isRejectedResponse t then encode_for (protocol c) t else t)]) ses
        (count_rejected t srv')"
      using assms rej by (simp add: handleData_def split: if_splits option.splits prod.splits)
    have "harmless c ses srv eff"
      using handler_data(3) [OF p] handlePubSub_inv [OF p] by (simp add: harmless_def others_ok_def eff)
    then show thesis by (rule same)
  qed
qed

lemma first_handler:
  assumes "(case h of Some x \<Rightarrow> f x | None \<Rightarrow> rest) = r"
  obtains x where "h = Some x" "f x = r" | "rest = r"
  using assms by (cases h) auto

lemma handleAuthenticated_handler:
  assumes "handleAuthenticated w c ses srv = Inr eff"
  obtains (ro) t srv' where "handleReadOnlyCommand (tokens c) srv = Some (t, srv')" "eff = respond c ses t srv'"
    | (cfg) t where "eff = respond c ses t srv"
    | (cl) t srv' k where "handleClientCommand w (ses_fd ses) (tokens c) srv = Some (t, srv', k)"
        "eff = (respond c ses t srv')\<lparr>eff_killed := k\<rparr>"
    | (per) t srv' where "handlePersistenceCommand w (tokens c) srv = Some (Inr (t, srv'))" "eff = respond c ses t srv'"
    | (sel) t ses' where "handleSelectCommand (tokens c) ses srv = Some (t, ses')"
        "eff = (let eff = respond c ses' t srv in eff\<lparr>eff_server := note_client c ses' (eff_server eff)\<rparr>)"
    | (dat) "handleData w c ses srv = Inr eff"
  using assms unfolding handleAuthenticated_def
proof (elim first_handler)
  fix x assume "handleReadOnlyCommand (tokens c) srv = Some x" "(case x of (t, srv') \<Rightarrow> Inr (respond c ses t srv')) = Inr eff"
  then show thesis using ro by (cases x) simp
next
  fix t assume "Inr (respond c ses t srv) = Inr eff"
  then show thesis using cfg [of t] by simp
next
  fix x assume "handleClientCommand w (ses_fd ses) (tokens c) srv = Some x"
      "(case x of (t, srv', k) \<Rightarrow> Inr ((respond c ses t srv')\<lparr>eff_killed := k\<rparr>)) = Inr eff"
  then show thesis using cl by (cases x) simp
next
  fix m assume "handlePersistenceCommand w (tokens c) srv = Some m"
      "and_then m (\<lambda>(t, srv'). Inr (respond c ses t srv')) = Inr eff"
  then show thesis using per by (cases m) auto
next
  fix x assume "handleSelectCommand (tokens c) ses srv = Some x"
      "(case x of (t, ses') \<Rightarrow> Inr (let eff = respond c ses' t srv in eff\<lparr>eff_server := note_client c ses' (eff_server eff)\<rparr>)) = Inr eff"
  then show thesis using sel by (cases x) simp
next
  assume "handleData w c ses srv = Inr eff"
  then show thesis by (rule dat)
next
  fix t assume "Inr (respond c ses t srv) = Inr eff"
  then show thesis using cfg [of t] by simp
qed

lemma handleAuthenticated_cases:
  assumes "handleAuthenticated w c ses srv = Inr eff"
  obtains (same) "harmless c ses srv eff"
    | (save) saved f f' where "upper_name (tokens c) = ''SAVE''" "others_ok c ses srv eff"
        "save_all w f (srv_stores srv) = Inr (saved, f', srv_stores (eff_server eff))"
    | (data) "handleData w c ses srv = Inr eff"
  using assms
proof (cases rule: handleAuthenticated_handler)
  case ro
  then show thesis using harmless_respond(1) handler_data(1) same by blast
next
  case cfg
  then show thesis using harmless_respond(1) [of srv srv] same by simp
next
  case cl
  then show thesis using harmless_respond(2) handler_data(2) same by blast
next
  case (per t srv')
  show thesis
  proof (cases "same_data srv srv'")
    case True
    then show thesis using harmless_respond(1) handlePersistence_cases [OF per(1)] per(2) same by blast
  next
    case False
    then obtain saved f f' where s: "upper_name (tokens c) = ''SAVE''" "save_all w f (srv_stores srv) = Inr (saved, f', srv_stores srv')"
      using handlePersistence_cases [OF per(1)] by blast
    have "others_ok c ses srv eff" using handlePersistence_cases [OF per(1)] per(2) by (simp add: others_ok_def)
    then show thesis using save [of f saved f'] s per(2) by simp
  qed
next
  case sel
  then show thesis using harmless_respond_session handler_sessions(2) same by blast
next
  case dat
  then show thesis by (rule data)
qed

lemma handleCommand_cases:
  assumes "handleCommand w c ses srv = Inr eff"
  obtains (same) "harmless c ses srv eff"
    | (save) saved f f' where "upper_name (tokens c) = ''SAVE''" "authenticated ses" "others_ok c ses srv eff"
        "save_all w f (srv_stores srv) = Inr (saved, f', srv_stores (eff_server eff))"
    | (data) "authenticated ses" "rejectReadOnlyWrite (tokens c) (noted c ses srv) = None"
        "run_data_command w c ses (noted c ses srv) = Inr eff"
proof -
  let ?srv = "noted c ses srv"
  consider (auth) t ses' where "handleAuthCommand (tokens c) ses ?srv = Some (t, ses')"
        "eff = (let eff = respond c ses' t ?srv in eff\<lparr>eff_server := note_client c ses' (eff_server eff)\<rparr>)"
    | (no) bytes where "eff = effect_of [(ses_fd ses, bytes)] ses (reject ?srv)"
    | (ok) "authenticated ses" "handleAuthenticated w c ses ?srv = Inr eff"
    using assms unfolding handleCommand_unfold Let_def
    by (cases "authenticated ses") (auto split: option.splits)
  then show thesis
  proof cases
    case auth
    have "harmless c ses ?srv eff"
      unfolding auth(2) by (rule harmless_respond_session) (use handler_sessions(1) [OF auth(1)] in simp_all)
    then show thesis using same by simp
  next
    case no
    then have "harmless c ses ?srv eff" using harmless_respond(3) [of ?srv "reject ?srv"] by (simp del: harmless_noted)
    then show thesis using same by simp
  next
    case ok
    from ok(2) show thesis
    proof (cases rule: handleAuthenticated_cases)
      case hs: same
      then show thesis using same by simp
    next
      case sv: (save saved f f')
      then show thesis using save [of f saved f'] ok(1) by simp
    next
      case dt: data
      then show thesis
        by (cases rule: handleData_cases) (use same data ok(1) in simp_all)
    qed
  qed
qed

lemma handleCommand_others:
  assumes "handleCommand w c ses srv = Inr eff"
  shows "others_ok c ses srv eff"
  using assms
proof (cases rule: handleCommand_cases)
  case same
  then show ?thesis by (simp add: harmless_def)
next
  case data
  then show ?thesis using run_data_others [OF data(3)] by simp
qed

end
