(* ===== verification/Durability.thy ===== *)
theory Durability
  imports DataCommands
begin

text \<open>
  The append-only file keeps the data. A specification of replay over the abstract databases
  connects the two sides: while a server runs, its file stays the encoding of a list of commands
  whose replay in the specification gives the present contents; and the replay of the source
  implements that specification. The result covers commands that set no deadline (a replayed
  \<open>EXPIRE\<close> counts from the time of the replay) and that push no list element starting with
  \<open>ERR\<close> (the pop of such an element is taken for a failure and not recorded), with eviction off.
\<close>

section \<open>The databases in the specification\<close>

type_synonym dbs = "space list"

definition spec_move :: "string \<Rightarrow> nat \<Rightarrow> nat \<Rightarrow> dbs \<Rightarrow> dbs" where
  "spec_move k i j ds =
     (if i = j then ds
      else (case (ds ! i) k of
              None \<Rightarrow> ds
            | Some x \<Rightarrow> if (ds ! j) k \<noteq> None then ds
                else ds[i := (ds ! i)(k := None), j := (ds ! j)(k \<mapsto> x)]))"

abbreviation views :: "int \<Rightarrow> DataStore list \<Rightarrow> dbs" where
  "views now stores \<equiv> map (view now) stores"

definition good_stores :: "DataStore list \<Rightarrow> bool" where
  "good_stores stores \<longleftrightarrow> (\<forall>s\<in>set stores. wf_store s \<and> eviction_off s)"

lemma moveKeyTo_views:
  assumes "wf_store src" "wf_store dst" "eviction_off dst" "ds_moveKeyTo e k src dst = (moved, src', dst')"
  shows "(view (clock e 0) src', view (clock e 0) dst') =
    (case view (clock e 0) src k of
       None \<Rightarrow> (view (clock e 0) src, view (clock e 0) dst)
     | Some x \<Rightarrow> if view (clock e 0) dst k \<noteq> None then (view (clock e 0) src, view (clock e 0) dst)
         else ((view (clock e 0) src)(k := None), (view (clock e 0) dst)(k \<mapsto> x)))"
    and "eviction_off src' = eviction_off src" "eviction_off dst'"
proof -
  have "(view (clock e 0) src', view (clock e 0) dst') =
    (case view (clock e 0) src k of
       None \<Rightarrow> (view (clock e 0) src, view (clock e 0) dst)
     | Some x \<Rightarrow> if view (clock e 0) dst k \<noteq> None then (view (clock e 0) src, view (clock e 0) dst)
         else ((view (clock e 0) src)(k := None), (view (clock e 0) dst)(k \<mapsto> x)))
    \<and> eviction_off src' = eviction_off src \<and> eviction_off dst'"
    using assms(3,4)
    by (cases rule: find_live_view_cases [OF assms(1), of "clock e 0" k];
        cases rule: find_live_view_cases [OF assms(2), of "clock e 0" k])
      (auto simp: ds_moveKeyTo_def Let_def view_simps)
  then show "(view (clock e 0) src', view (clock e 0) dst') =
    (case view (clock e 0) src k of
       None \<Rightarrow> (view (clock e 0) src, view (clock e 0) dst)
     | Some x \<Rightarrow> if view (clock e 0) dst k \<noteq> None then (view (clock e 0) src, view (clock e 0) dst)
         else ((view (clock e 0) src)(k := None), (view (clock e 0) dst)(k \<mapsto> x)))"
    "eviction_off src' = eviction_off src" "eviction_off dst'" by auto
qed

lemma move_between_refines:
  assumes "good_stores stores" "clock_ok e" "i < length stores" "j < length stores"
  shows "views (clock e 0) (snd (move_between e k i j stores)) = spec_move k i j (views (clock e 0) stores)"
    and "good_stores (snd (move_between e k i j stores))"
    and "length (snd (move_between e k i j stores)) = length stores"
proof -
  obtain moved src' dst' where m: "ds_moveKeyTo e k (stores ! i) (stores ! j) = (moved, src', dst')"
    by (metis prod_cases3)
  have ij: "wf_store (stores ! i)" "wf_store (stores ! j)" "eviction_off (stores ! i)" "eviction_off (stores ! j)"
    using assms by (auto simp: good_stores_def)
  note mv = moveKeyTo_views [OF ij(1,2,4) m] and wf = wf_ds_moveKeyTo [OF ij(1,2) assms(2) m]
  show "length (snd (move_between e k i j stores)) = length stores"
    by (simp add: move_between_def m)
  show "good_stores (snd (move_between e k i j stores))"
    using assms(1) wf mv(2,3) ij by (auto simp: move_between_def m good_stores_def dest!: subsetD [OF set_update_subset_insert])
  have same: "(views (clock e 0) stores)[i := view (clock e 0) (stores ! i), j := view (clock e 0) (stores ! j)]
      = views (clock e 0) stores"
    using assms(3,4) by (intro nth_equalityI) (auto simp: nth_list_update)
  show "views (clock e 0) (snd (move_between e k i j stores)) = spec_move k i j (views (clock e 0) stores)"
    using mv(1) same assms(3,4)
    by (auto simp: move_between_def m spec_move_def map_update split: option.splits if_splits)
qed

lemma flush_all_refines:
  "views now (flush_all stores) = map (\<lambda>_. Map.empty) (views now stores)"
  "good_stores stores \<Longrightarrow> good_stores (flush_all stores)"
  "length (flush_all stores) = length stores"
  by (auto simp: flush_all_def ds_flushdb_def view_def find_key_def good_stores_def wf_store_def eviction_off_def)


section \<open>Data without deadlines\<close>

definition timeless :: "space \<Rightarrow> bool" where
  "timeless m \<longleftrightarrow> (\<forall>k v d. m k = Some (v, d) \<longrightarrow> d = None)"

fun ttl_free :: "store_op \<Rightarrow> bool" where
  "ttl_free (OpExpire k t) \<longleftrightarrow> False"
| "ttl_free (OpSet k v t) \<longleftrightarrow> t < 0"
| "ttl_free _ \<longleftrightarrow> True"

lemma tick_timeless: "timeless m \<Longrightarrow> tick now m = m"
  by (auto simp: timeless_def tick_def fun_eq_iff split: option.splits)

lemma view_later:
  "timeless (view now s) \<Longrightarrow> now \<le> later \<Longrightarrow> view later s = view now s"
  by (simp add: view_tick tick_timeless)

lemma spec_op_timeless: "ttl_free op \<Longrightarrow> snd (spec_op now op m) = snd (spec_op 0 op m)"
  by (cases op) (auto simp: on_key_def enter_def split: option.splits list.splits)

lemma timeless_upd: "timeless m \<Longrightarrow> timeless (m(k \<mapsto> (v, None)))" "timeless m \<Longrightarrow> timeless (m(k := None))"
  by (simp_all add: timeless_def)

lemma timeless_mset: "timeless m \<Longrightarrow> timeless (spec_mset kvs m)"
  by (induction kvs m rule: spec_mset.induct) (simp_all add: timeless_upd)

lemma timeless_spec_op:
  assumes "timeless m" "ttl_free op"
  shows "timeless (snd (spec_op now op m))"
proof -
  have d: "d = None" if "m k = Some (v, d)" for k v d using assms(1) that by (auto simp: timeless_def)
  show ?thesis
    using assms
    by (cases op)
      (auto simp: on_key_def enter_def timeless_upd timeless_mset timeless_def [of Map.empty]
        dest!: d split: option.splits list.splits)
qed

section \<open>Lists without elements that read as errors\<close>

definition clean_space :: "space \<Rightarrow> bool" where
  "clean_space m \<longleftrightarrow> (\<forall>k l d. m k = Some (RList l, d) \<longrightarrow> (\<forall>x\<in>set l. \<not> is_error x))"

fun clean_op :: "store_op \<Rightarrow> bool" where
  "clean_op (OpLpush k vs) \<longleftrightarrow> (\<forall>v\<in>set vs. \<not> is_error v)"
| "clean_op (OpRpush k vs) \<longleftrightarrow> (\<forall>v\<in>set vs. \<not> is_error v)"
| "clean_op _ \<longleftrightarrow> True"

fun clean_value :: "rvalue \<Rightarrow> bool" where
  "clean_value (RList l) \<longleftrightarrow> (\<forall>x\<in>set l. \<not> is_error x)"
| "clean_value _ \<longleftrightarrow> True"

lemma clean_upd:
  "clean_space m \<Longrightarrow> clean_value v \<Longrightarrow> clean_space (m(k \<mapsto> (v, d)))"
  "clean_space m \<Longrightarrow> clean_space (m(k := None))"
  by (cases v) (auto simp: clean_space_def)

lemma clean_at: "clean_space m \<Longrightarrow> m k = Some (v, d) \<Longrightarrow> clean_value v"
  by (cases v) (auto simp: clean_space_def)

lemma clean_mset: "clean_space m \<Longrightarrow> clean_space (spec_mset kvs m)"
  by (induction kvs m rule: spec_mset.induct) (simp_all add: clean_upd)

lemma clean_enter: "clean_space m \<Longrightarrow> clean_value (fst x) \<Longrightarrow> clean_space (enter now k x m)"
  by (cases x) (auto simp: enter_def clean_upd split: option.splits)

lemma as_list_Some: "as_list v = Some l \<longleftrightarrow> v = RList l"
  by (cases v) auto

lemma rev_eq_Cons_set: "rev l = x # r \<Longrightarrow> set l = insert x (set r)"
  by (metis set_rev list.simps(15))

lemma clean_spec_op:
  assumes "clean_space m" "clean_op op"
  shows "clean_space (snd (spec_op now op m))"
proof -
  have v: "clean_value v" if "m k = Some (v, d)" for k v d using clean_at [OF assms(1) that] .
  show ?thesis
    using assms
    by (cases op)
      (auto simp: on_key_def clean_upd clean_mset clean_enter clean_space_def [of Map.empty] as_list_Some ball_Un
        dest!: v rev_eq_Cons_set split: option.splits list.splits)
qed

lemma is_error_line: "is_error (x @ [LF]) \<longleftrightarrow> is_error x"
  by (auto simp: is_error_def starts_with_iff append_eq_append_conv2 append_eq_Cons_conv LF_def)

lemma pop_error_unchanged:
  assumes "spec_step now op m r m'" "is_error (response (render n r))" "pop_op op" "clean_space m"
  shows "m' = m"
proof -
  have v: "clean_value v" if "m k = Some (v, d)" for k v d using clean_at [OF assms(4) that] .
  show ?thesis
    using assms(1-3)
    by (cases op)
      (auto simp: spec_step_def on_key_def as_list_Some pop_answer_def answer_def is_error_line
        dest!: v rev_eq_Cons_set split: option.splits list.splits)
qed


section \<open>The specification of replay\<close>

text \<open>
  The effect of one recorded command on the databases, with a cursor for the current one. It is
  undefined when a counter would leave the 64-bit range.
\<close>

definition spec_exec :: "store_op \<Rightarrow> space \<Rightarrow> space option" where
  "spec_exec op m =
     (if (\<exists>k n. op = OpIncrBy k n \<and>
           (case m k of
              None \<Rightarrow> \<not> in_llong n
            | Some (v, _) \<Rightarrow> (case as_string v of None \<Rightarrow> False
                | Some x \<Rightarrow> (case parse_ll x of None \<Rightarrow> False | Some c \<Rightarrow> \<not> in_llong (c + n)))))
      then None else Some (snd (spec_op 0 op m)))"

definition spec_replay_one :: "string list \<Rightarrow> nat \<times> dbs \<Rightarrow> (nat \<times> dbs) option" where
  "spec_replay_one ts st =
     (case st of (db, ds) \<Rightarrow>
        if toUpper (hd ts) = ''FLUSHALL'' then
          Some (db, if length ts \<noteq> 1 then ds else map (\<lambda>_. Map.empty) ds)
        else if toUpper (hd ts) = ''MOVE'' then
          Some (db, if length ts \<noteq> 3 then ds
            else (case replay_index (ts ! 2) (length ds) of None \<Rightarrow> ds | Some j \<Rightarrow> spec_move (ts ! 1) db j ds))
        else if toUpper (hd ts) = ''SELECT'' then
          Some (if length ts \<noteq> 2 then db
            else (case replay_index (ts ! 1) (length ds) of None \<Rightarrow> db | Some j \<Rightarrow> j), ds)
        else (case map_of grammar_table (toUpper (hd ts)) of
                None \<Rightarrow> Some (db, ds)
              | Some g \<Rightarrow> (case g (tl ts) of
                  Inl c \<Rightarrow> Some (db, ds)
                | Inr op \<Rightarrow> map_option (\<lambda>m. (db, ds[db := m])) (spec_exec op (ds ! db)))))"

fun spec_replay :: "string list list \<Rightarrow> nat \<times> dbs \<Rightarrow> (nat \<times> dbs) option" where
  "spec_replay [] st = Some st"
| "spec_replay (ts # rest) st = Option.bind (spec_replay_one ts st) (spec_replay rest)"

lemma spec_replay_append: "spec_replay (xs @ ys) st = Option.bind (spec_replay xs st) (spec_replay ys)"
proof (induction xs arbitrary: st)
  case (Cons ts xs)
  then show ?case by (cases "spec_replay_one ts st") (simp_all del: split_paired_All)
qed simp

text \<open>The commands covered: not empty, and an operation that sets no deadline and adds no text that reads as an error.\<close>

definition plain_command :: "string list \<Rightarrow> bool" where
  "plain_command ts \<longleftrightarrow> ts \<noteq> [] \<and>
     (\<forall>g op. map_of grammar_table (toUpper (hd ts)) = Some g \<longrightarrow> g (tl ts) = Inr op \<longrightarrow> ttl_free op \<and> clean_op op)"

definition plain_dbs :: "dbs \<Rightarrow> bool" where
  "plain_dbs ds \<longleftrightarrow> (\<forall>m\<in>set ds. timeless m \<and> clean_space m)"

definition sane_env :: "env \<Rightarrow> bool" where
  "sane_env e \<longleftrightarrow> clock_ok e \<and> 1000 \<le> clock e 0"

lemma sane_good: "sane_env e \<Longrightarrow> good_env e" "sane_env e \<Longrightarrow> clock_ok e"
  by (simp_all add: sane_env_def good_env_def)

lemma plain_update: "plain_dbs ds \<Longrightarrow> timeless m \<Longrightarrow> clean_space m \<Longrightarrow> plain_dbs (ds[i := m])"
  by (auto simp: plain_dbs_def dest!: subsetD [OF set_update_subset_insert])

lemma plain_nth: "plain_dbs ds \<Longrightarrow> i < length ds \<Longrightarrow> timeless (ds ! i) \<and> clean_space (ds ! i)"
  by (simp add: plain_dbs_def)

lemma views_later: "plain_dbs (views now stores) \<Longrightarrow> now \<le> later \<Longrightarrow> views later stores = views now stores"
  by (auto simp: plain_dbs_def intro!: view_later)

lemma plain_move:
  assumes "plain_dbs ds" "i < length ds" "j < length ds"
  shows "plain_dbs (spec_move k i j ds)"
proof (cases "(ds ! i) k")
  case (Some x)
  obtain v d where x: "x = (v, d)" by (cases x)
  have "d = None" "clean_value v"
    using Some plain_nth [OF assms(1,2)] clean_at by (auto simp: x timeless_def)
  then show ?thesis
    using assms plain_nth [OF assms(1,2)] plain_nth [OF assms(1,3)]
    by (auto simp: spec_move_def Some x intro!: plain_update timeless_upd clean_upd)
qed (use assms in \<open>simp add: spec_move_def\<close>)

lemma length_spec_replay_one: "spec_replay_one ts (db, ds) = Some (db', ds') \<Longrightarrow> length ds' = length ds"
  by (auto simp: spec_replay_one_def spec_move_def split: if_splits option.splits sum.splits)

lemma replay_index_less: "replay_index raw n = Some j \<Longrightarrow> j < n"
  by (auto simp: replay_index_def split: option.splits prod.splits if_splits)

lemma spec_replay_one_cases:
  assumes "spec_replay_one ts (db, ds) = Some (db', ds')"
  obtains (same) "db' = db" "ds' = ds"
    | (flush) "db' = db" "ds' = map (\<lambda>_. Map.empty) ds"
    | (move) j where "db' = db" "j < length ds" "ds' = spec_move (ts ! 1) db j ds"
    | (select) "db' < length ds" "ds' = ds"
    | (exec) g op where "map_of grammar_table (toUpper (hd ts)) = Some g" "g (tl ts) = Inr op"
        "db' = db" "ds' = ds[db := snd (spec_op 0 op (ds ! db))]"
proof -
  consider "toUpper (hd ts) = ''FLUSHALL''" | "toUpper (hd ts) = ''MOVE''" | "toUpper (hd ts) = ''SELECT''"
    | "toUpper (hd ts) \<noteq> ''FLUSHALL''" "toUpper (hd ts) \<noteq> ''MOVE''" "toUpper (hd ts) \<noteq> ''SELECT''" by blast
  then show ?thesis
  proof cases
    case 1
    then have "db' = db \<and> (ds' = ds \<or> ds' = map (\<lambda>_. Map.empty) ds)"
      using assms by (simp add: spec_replay_one_def split: if_splits)
    then show ?thesis using same flush by blast
  next
    case 2
    then have "db' = db \<and> (ds' = ds \<or> (\<exists>j<length ds. ds' = spec_move (ts ! 1) db j ds))"
      using assms replay_index_less by (auto simp: spec_replay_one_def split: if_splits option.splits)
    then show ?thesis using same move by blast
  next
    case 3
    then have "ds' = ds \<and> (db' = db \<or> db' < length ds)"
      using assms replay_index_less by (auto simp: spec_replay_one_def split: if_splits option.splits)
    then show ?thesis using same select by blast
  next
    case 4
    show ?thesis
    proof (cases "map_of grammar_table (toUpper (hd ts))")
      case None
      then show ?thesis using 4 assms same by (simp add: spec_replay_one_def)
    next
      case (Some g)
      then have "db' = db \<and> (ds' = ds \<or> (\<exists>op. g (tl ts) = Inr op \<and> ds' = ds[db := snd (spec_op 0 op (ds ! db))]))"
        using 4 assms by (cases "g (tl ts)") (auto simp: spec_replay_one_def spec_exec_def split: if_splits)
      then show ?thesis using same exec [OF Some] by blast
    qed
  qed
qed

lemma spec_replay_one_plain:
  assumes "spec_replay_one ts (db, ds) = Some (db', ds')" "plain_command ts" "plain_dbs ds" "db < length ds"
  shows "plain_dbs ds' \<and> db' < length ds'"
  using assms(1)
proof (cases rule: spec_replay_one_cases)
  case flush
  then show ?thesis using assms by (simp add: plain_dbs_def timeless_def clean_space_def)
next
  case (move j)
  then show ?thesis using assms length_spec_replay_one [OF assms(1)] by (simp add: plain_move)
next
  case (exec g op)
  have "plain_dbs (ds[db := snd (spec_op 0 op (ds ! db))])"
    using assms(2) exec(1,2) plain_nth [OF assms(3,4)]
    by (intro plain_update [OF assms(3)]) (auto simp: plain_command_def timeless_spec_op clean_spec_op)
  then show ?thesis using exec assms(4) by simp
qed (use assms in auto)


section \<open>One command, live\<close>

lemma logged_in_grammar:
  "n \<in> set logged_names \<Longrightarrow> n \<noteq> ''MOVE'' \<Longrightarrow> n \<noteq> ''FLUSHALL'' \<Longrightarrow> \<exists>g. map_of grammar_table n = Some g"
  unfolding logged_names_eq by (auto simp: grammar_table_def)

lemma special_not_in_grammar:
  "map_of grammar_table ''SELECT'' = None" "map_of grammar_table ''MOVE'' = None" "map_of grammar_table ''FLUSHALL'' = None"
  by (simp_all add: grammar_table_def)

lemma spec_exec_safe:
  assumes "run_op e op s = Inr (r, s')" "wf_store s" "eviction_off s" "sane_env e"
  shows "spec_exec op (view (clock e 0) s) = Some (snd (spec_op 0 op (view (clock e 0) s)))"
proof -
  have "op_safe e op s"
    using run_op_defined_iff [of s e op] assms by (auto simp: sane_env_def)
  then show ?thesis
    by (cases op) (auto simp: spec_exec_def split: option.splits)
qed

lemma views_update: "db < length stores \<Longrightarrow> view now s' = view now (stores ! db) \<Longrightarrow> views now (stores[db := s']) = views now stores"
  by (simp add: map_update list_update_same_conv)

lemma good_update: "good_stores stores \<Longrightarrow> wf_store s' \<Longrightarrow> eviction_off s' \<Longrightarrow> good_stores (stores[db := s'])"
  by (auto simp: good_stores_def dest!: subsetD [OF set_update_subset_insert])

lemma run_in_good:
  assumes "run_in src e ts db stores = Inr (res, stores')" "good_stores stores" "clock_ok e" "db < length stores"
  shows "good_stores stores' \<and> length stores' = length stores"
proof -
  obtain s' where s': "registry_execute (buildCommandRegistry src) e ts (stores ! db) = Inr (res, s')"
      "stores' = stores[db := s']"
    using assms(1) by (auto simp: run_in_def)
  have "wf_store (stores ! db)" "eviction_off (stores ! db)" using assms(2,4) by (auto simp: good_stores_def)
  then show ?thesis
    using wf_registry_execute [OF s'(1)] config_registry_execute [OF s'(1)] assms(2,3) s'(2)
    by (auto intro!: good_update simp: eviction_off_def)
qed

lemma run_in_live:
  assumes run: "run_in src e ts db stores = Inr (res, stores')"
    and st: "good_stores stores" "db < length stores" "sane_env e"
    and plain: "plain_command ts" "plain_dbs (views (clock e 0) stores)"
    and name: "toUpper (hd ts) \<noteq> ''MOVE''" "toUpper (hd ts) \<noteq> ''FLUSHALL''"
  shows "(if isAofLoggedCommand ts \<and> \<not> is_error (response res)
     then spec_replay_one ts (db, views (clock e 0) stores) = Some (db, views (clock e 0) stores')
     else views (clock e 0) stores' = views (clock e 0) stores)"
proof -
  let ?now = "clock e 0" and ?s = "stores ! db"
  obtain s' where s': "registry_execute (buildCommandRegistry src) e ts ?s = Inr (res, s')" "stores' = stores[db := s']"
    using run by (auto simp: run_in_def)
  have wf: "wf_store ?s" "eviction_off ?s" using st by (auto simp: good_stores_def)
  show ?thesis
  proof (cases "isAofLoggedCommand ts")
    case False
    then show ?thesis
      using registry_not_logged [OF s'(1) False wf(1)] st s'(2) by (simp add: views_update sane_good)
  next
    case True
    then obtain g where g: "map_of grammar_table (toUpper (hd ts)) = Some g"
      using logged_in_grammar name by (auto simp: isAofLoggedCommand_iff)
    obtain n args where ts: "ts = n # args" using plain(1) by (cases ts) (auto simp: plain_command_def)
    have g': "map_of grammar_table (toUpper n) = Some g" using g by (simp add: ts)
    have up: "toUpper n \<noteq> ''SELECT''" using g special_not_in_grammar by (auto simp: ts)
    show ?thesis
    proof (cases "g args")
      case (Inl c)
      then have "s' = ?s" using s'(1) registry_grammar_error [of n g args c src e ?s] g by (simp add: ts)
      then show ?thesis using Inl g name up s'(2) by (simp add: ts spec_replay_one_def)
    next
      case (Inr op)
      have free: "ttl_free op" "clean_op op" using plain(1) g Inr by (auto simp: plain_command_def ts)
      have clean: "clean_space (view ?now ?s)" using plain_nth [OF plain(2)] st(2) by simp
      obtain r where r: "spec_step ?now op (view ?now ?s) r (view ?now s')" "res = render (toUpper n) r"
        using registry_refines [OF s'(1) [unfolded ts] g' Inr wf sane_good(1) [OF st(3)]] by blast
      have m': "view ?now s' = snd (spec_op 0 op (view ?now ?s))"
        using r(1) spec_op_timeless [OF free(1)] by (simp add: spec_step_def)
      obtain r0 where "run_op e op ?s = Inr (r0, s')"
        using s'(1) g Inr by (auto simp: ts registry_execute_def registry_lookup via_op_def)
      then have ex: "spec_exec op (view ?now ?s) = Some (view ?now s')"
        using spec_exec_safe [OF _ wf st(3)] m' by simp
      show ?thesis
      proof (cases "is_error (response res)")
        case True
        then have "view ?now s' = view ?now ?s"
          using error_step_unchanged [OF r(1)] pop_error_unchanged [OF r(1)] r(2) clean by blast
        then show ?thesis using True st(2) s'(2) by (simp add: views_update)
      next
        case False
        then show ?thesis
          using g Inr name up ex s'(2) st(2) \<open>isAofLoggedCommand ts\<close> by (simp add: ts spec_replay_one_def map_update)
      qed
    qed
  qed
qed

section \<open>The recorded log\<close>

text \<open>
  The file is the encoding of a list of commands whose replay, in the specification, gives the
  present contents of the databases and the database the file is positioned at.
\<close>

definition log_ok :: "(nat \<Rightarrow> bool) \<Rightarrow> dbs \<Rightarrow> int \<Rightarrow> DataStore list \<Rightarrow> Aof \<Rightarrow> string list list \<Rightarrow> bool" where
  "log_ok ok base now stores a cmds \<longleftrightarrow>
     good_stores stores \<and> plain_dbs (views now stores) \<and> length stores = length base \<and>
     aof_file a = concat (map encodeRespCommand cmds) \<and>
     (\<forall>ts\<in>set cmds. plain_command ts \<and> sendable ts \<and> ok (length ts)) \<and>
     spec_replay cmds (0, base) = Some (currentAppendDatabase a, views now stores)"

lemma log_ok_later:
  "log_ok ok base now stores a cmds \<Longrightarrow> now \<le> later \<Longrightarrow> views later stores = views now stores"
  unfolding log_ok_def by (elim conjE) (rule views_later)

definition log_entry :: "nat \<Rightarrow> string list \<Rightarrow> Aof \<Rightarrow> string list list" where
  "log_entry db ts a = (if db \<noteq> currentAppendDatabase a then [select_command db] else []) @ [ts]"

lemma upper_literals: "toUpper ''SELECT'' = ''SELECT''"
  by (simp add: toUpper_def toupper_def code_def)

lemma spec_replay_select:
  assumes "db < length ds" "int (length ds) < llong_max"
  shows "spec_replay_one (select_command db) (c, ds) = Some (db, ds)"
proof -
  have "replay_index (show_nat db) (length ds) = Some db"
    using assms stoull_show_nat [of db] by (simp add: replay_index_def llong_max_def)
  then show ?thesis by (simp add: spec_replay_one_def select_command_def upper_literals)
qed

lemma plain_select: "plain_command (select_command db)"
  by (simp add: plain_command_def select_command_def upper_literals special_not_in_grammar)

lemma length_show_nat_le: "length (show_nat n) \<le> Suc n"
proof (induction n rule: show_nat.induct)
  case (1 n)
  show ?case
  proof (cases "n < 10")
    case True
    then show ?thesis by (simp add: show_nat.simps [of n])
  next
    case False
    then have "length (show_nat (n div 10)) \<le> Suc (n div 10)" using 1 by simp
    moreover have "Suc (n div 10) \<le> n" using False by simp
    ultimately show ?thesis using False by (subst show_nat.simps) simp
  qed
qed


lemma sendable_select:
  assumes "int db < llong_max"
  shows "sendable (select_command db)"
  using assms length_show_nat_le [of db] by (auto simp: sendable_def select_command_def llong_max_def)

lemma log_ok_record:
  assumes log: "log_ok ok base now stores a cmds" and "now \<le> later"
    and "spec_replay_one ts (db, views later stores) = Some (db, views later stores')"
    and "good_stores stores'" "length stores' = length stores" "db < length stores"
    and "plain_command ts" "sendable ts" "ok (length ts)" "ok 2" "int (length base) < llong_max"
    and "writeCommand io ts db a = (True, a')"
  shows "log_ok ok base later stores' a' (cmds @ log_entry db ts a)"
proof -
  have v: "views later stores = views now stores"
    by (rule log_ok_later [OF log assms(2)])
  have lens: "length stores = length base" using log by (simp add: log_ok_def)
  have pre: "spec_replay (if db \<noteq> currentAppendDatabase a then [select_command db] else [])
      (currentAppendDatabase a, views now stores) = Some (db, views now stores)"
    using spec_replay_select [of db "views now stores" "currentAppendDatabase a"] assms(6,11) lens by simp
  have replayed: "spec_replay (cmds @ log_entry db ts a) (0, base) = Some (db, views later stores')"
    using log assms(3) pre v by (simp add: spec_replay_append log_entry_def log_ok_def)
  have plain: "plain_dbs (views later stores')"
    using spec_replay_one_plain [OF assms(3,7)] log v assms(6) by (simp add: log_ok_def)
  have content: "aof_file a' = concat (map encodeRespCommand (cmds @ log_entry db ts a))" "currentAppendDatabase a' = db"
    using assms(12) log by (auto simp: writeCommand_def Let_def log_ok_def log_entry_def)
  have "int db < llong_max" using assms(6,11) lens by simp
  then have "\<forall>c\<in>set (log_entry db ts a). plain_command c \<and> sendable c \<and> ok (length c)"
    using assms(7-10) sendable_select plain_select
    by (auto simp: log_entry_def select_command_def numeral_2_eq_2 split: if_splits)
  then show ?thesis using log replayed plain content assms(4,5) by (auto simp: log_ok_def)
qed

lemma log_ok_unchanged:
  assumes "log_ok ok base now stores a cmds" "now \<le> later"
    and "views later stores' = views later stores" "good_stores stores'"
  shows "log_ok ok base later stores' a cmds"
proof -
  have v: "views later stores = views now stores"
    by (rule log_ok_later [OF assms(1,2)])
  have "length stores' = length stores" using assms(3) by (metis length_map)
  then show ?thesis using assms v by (simp add: log_ok_def)
qed

section \<open>A server with an append-only file\<close>

text \<open>One data command of a client that is positioned at database \<open>db\<close>.\<close>

record request =
  req_env :: env
  req_db :: nat
  req_tokens :: "string list"

definition request_ok :: "(nat \<Rightarrow> bool) \<Rightarrow> nat \<Rightarrow> request \<Rightarrow> bool" where
  "request_ok ok n q \<longleftrightarrow> sane_env (req_env q) \<and> req_db q < n \<and> plain_command (req_tokens q) \<and>
     sendable (req_tokens q) \<and> ok (length (req_tokens q))"

lemma parseDatabaseIndex_replay: "parseDatabaseIndex raw n = Some j \<Longrightarrow> replay_index raw n = Some j"
  by (auto simp: parseDatabaseIndex_def replay_index_def split: if_splits)

lemma executeAndAppend_good:
  assumes "with_aof all_good ts db execute (Some a) = Inr (res, stores', appended, aof')"
  shows "execute = Inr (res, stores') \<and>
    (if isAofLoggedCommand ts \<and> \<not> is_error (response res)
     then \<exists>a'. aof' = Some a' \<and> writeCommand all_good ts db a = (True, a')
     else aof' = Some a)"
proof -
  obtain a' where w: "writeCommand all_good ts db a = (True, a')"
    by (simp add: writeCommand_def all_good_def Let_def)
  have io: "aof_dir_ok all_good" "aof_open_ok all_good" by (simp_all add: all_good_def)
  obtain r st where x: "execute = Inr (r, st)"
    using assms by (cases execute) (auto simp: with_aof_def executeAndAppend_def)
  show ?thesis
  proof (cases "isAofLoggedCommand ts \<and> \<not> is_error (response r)")
    case True
    then have "with_aof all_good ts db execute (Some a) = Inr (r, st, True, Some a')"
      by (simp add: with_aof_def executeAndAppend_def isMutatingCommand_def x io w)
    then have "res = r" "stores' = st" "aof' = Some a'" using assms by simp_all
    then show ?thesis using x True w by simp
  next
    case False
    then have "with_aof all_good ts db execute (Some a) = Inr (r, st, True, Some a)"
      by (auto simp: with_aof_def executeAndAppend_def isMutatingCommand_def x)
    then have eqs: "res = r" "stores' = st" "aof' = Some a" using assms by simp_all
    show ?thesis unfolding eqs if_not_P [OF False] using x by simp
  qed
qed

lemma data_command_live:
  assumes run: "data_command src (req_env q) all_good (req_tokens q) (req_db q) stores (Some a) = Inr (res, stores', appended, aof')"
    and log: "log_ok ok base now stores a cmds" and "now \<le> clock (req_env q) 0"
    and q: "request_ok ok (length base) q" and ok2: "ok 2" "int (length base) < llong_max"
  shows "\<exists>a' cmds'. aof' = Some a' \<and> log_ok ok base (clock (req_env q) 0) stores' a' cmds'"
proof -
  let ?e = "req_env q" and ?ts = "req_tokens q" and ?db = "req_db q" and ?now = "clock (req_env q) 0"
  have st: "good_stores stores" "length stores = length base" "?db < length stores"
    using log q by (auto simp: log_ok_def request_ok_def)
  have plain: "plain_dbs (views ?now stores)"
    using log log_ok_later [OF log assms(3)] by (simp only: log_ok_def)
  have step: "\<exists>a' cmds'. aof' = Some a' \<and> log_ok ok base ?now stores' a' cmds'"
    if w: "with_aof all_good ?ts ?db execute (Some a) = Inr (res, stores', appended, aof')"
      and good: "execute = Inr (res, stores') \<Longrightarrow> good_stores stores' \<and> length stores' = length stores"
      and eff: "execute = Inr (res, stores') \<Longrightarrow>
        if isAofLoggedCommand ?ts \<and> \<not> is_error (response res)
        then spec_replay_one ?ts (?db, views ?now stores) = Some (?db, views ?now stores')
        else views ?now stores' = views ?now stores" for execute
  proof -
    have ex: "execute = Inr (res, stores')" using executeAndAppend_good [OF w] by blast
    show ?thesis
    proof (cases "isAofLoggedCommand ?ts \<and> \<not> is_error (response res)")
      case True
      then obtain a' where a': "aof' = Some a'" "writeCommand all_good ?ts ?db a = (True, a')"
        using executeAndAppend_good [OF w] by auto
      have "log_ok ok base ?now stores' a' (cmds @ log_entry ?db ?ts a)"
        using log_ok_record [OF log assms(3) _ _ _ st(3) _ _ _ ok2 a'(2)] good [OF ex] eff [OF ex] True q
        by (simp add: request_ok_def)
      then show ?thesis using a'(1) by blast
    next
      case False
      then have "aof' = Some a" using executeAndAppend_good [OF w] by auto
      moreover have "views ?now stores' = views ?now stores" using False eff [OF ex] by (simp split: if_splits)
      ultimately show ?thesis using log_ok_unchanged [OF log assms(3)] good [OF ex] by blast
    qed
  qed
  have same: ?thesis if "stores' = stores" "aof' = Some a"
    using that log_ok_unchanged [OF log assms(3), of stores] st(1) by auto
  consider (move) "toUpper (hd ?ts) = ''MOVE''" | (flush) "toUpper (hd ?ts) = ''FLUSHALL''"
    | (other) "toUpper (hd ?ts) \<noteq> ''MOVE''" "toUpper (hd ?ts) \<noteq> ''FLUSHALL''" by blast
  then show ?thesis
  proof cases
    case move
    show ?thesis
    proof (cases "if length ?ts \<noteq> 3 then None else parseDatabaseIndex (?ts ! 2) (length stores)")
      case None
      then show ?thesis using run move same by (auto simp: data_command_defs split: if_splits)
    next
      case (Some j)
      then have j: "length ?ts = 3" "parseDatabaseIndex (?ts ! 2) (length stores) = Some j" by (auto split: if_splits)
      note idx = parseDatabaseIndex_replay [OF j(2)]
      note mv = move_between_refines [OF st(1) _ st(3) replay_index_less [OF idx], of ?e "?ts ! 1"]
      have "clock_ok ?e" using q by (simp add: request_ok_def sane_good)
      note mv = mv [OF this]
      have mk: "move_key ?e (?ts ! 1) ?db j stores = Inr (res, stores') \<Longrightarrow>
          stores' = snd (move_between ?e (?ts ! 1) ?db j stores) \<and> \<not> is_error (response res)"
        by (auto simp: move_key_def Let_def case_prod_beta)
      have w: "with_aof all_good ?ts ?db (move_key ?e (?ts ! 1) ?db j stores) (Some a) = Inr (res, stores', appended, aof')"
        using run move j by (simp add: data_command_defs)
      have "isAofLoggedCommand ?ts"
        using move q by (simp add: isAofLoggedCommand_iff logged_names_eq request_ok_def plain_command_def)
      then show ?thesis
        using mk mv idx move j(1) by (intro step [OF w]) (auto simp: spec_replay_one_def)
    qed
  next
    case flush
    show ?thesis
    proof (cases "length ?ts = 1")
      case True
      have w: "with_aof all_good ?ts ?db (Inr (answer ''OK'', flush_all stores)) (Some a) = Inr (res, stores', appended, aof')"
        using run flush True by (simp add: data_command_defs)
      have "isAofLoggedCommand ?ts"
        using flush q by (simp add: isAofLoggedCommand_iff logged_names_eq request_ok_def plain_command_def)
      then show ?thesis
        using flush True flush_all_refines st(1) by (intro step [OF w]) (auto simp: spec_replay_one_def)
    qed (use run flush same in \<open>simp add: data_command_defs\<close>)
  next
    case other
    have w: "with_aof all_good ?ts ?db (run_in src ?e ?ts ?db stores) (Some a) = Inr (res, stores', appended, aof')"
      using run other by (simp add: data_command_defs)
    have se: "sane_env ?e" "plain_command ?ts" using q by (simp_all add: request_ok_def)
    show ?thesis
      using run_in_good [OF _ st(1) sane_good(2) [OF se(1)] st(3)] run_in_live [OF _ st(1,3) se plain other]
      by (intro step [OF w]) blast+
  qed
qed


text \<open>A run of the server: requests of any clients, one after the other, in the order of the lock.\<close>

fun live_run :: "info_sources \<Rightarrow> request list \<Rightarrow> DataStore list \<Rightarrow> Aof option \<Rightarrow> (DataStore list \<times> Aof option) outcome" where
  "live_run src [] stores aof = Inr (stores, aof)"
| "live_run src (q # qs) stores aof =
     and_then (data_command src (req_env q) all_good (req_tokens q) (req_db q) stores aof)
       (\<lambda>(res, stores', ok, aof'). live_run src qs stores' aof')"

fun requests_ok :: "(nat \<Rightarrow> bool) \<Rightarrow> nat \<Rightarrow> int \<Rightarrow> request list \<Rightarrow> bool" where
  "requests_ok ok n now [] \<longleftrightarrow> True"
| "requests_ok ok n now (q # qs) \<longleftrightarrow>
     request_ok ok n q \<and> now \<le> clock (req_env q) 0 \<and> requests_ok ok n (clock (req_env q) 0) qs"

fun last_time :: "int \<Rightarrow> request list \<Rightarrow> int" where
  "last_time now [] = now"
| "last_time now (q # qs) = last_time (clock (req_env q) 0) qs"

lemma live_run_logs:
  "live_run src qs stores (Some a) = Inr (stores', aof') \<Longrightarrow> log_ok ok base now stores a cmds \<Longrightarrow>
     requests_ok ok (length base) now qs \<Longrightarrow> ok 2 \<Longrightarrow> int (length base) < llong_max \<Longrightarrow>
     \<exists>a' cmds'. aof' = Some a' \<and> log_ok ok base (last_time now qs) stores' a' cmds'"
proof (induction qs arbitrary: stores a now cmds)
  case Nil
  then show ?case by auto
next
  case (Cons q qs)
  from Cons.prems(1) obtain res stores1 b aof1 where
      q: "data_command src (req_env q) all_good (req_tokens q) (req_db q) stores (Some a) = Inr (res, stores1, b, aof1)"
      "live_run src qs stores1 aof1 = Inr (stores', aof')"
    by auto
  obtain a1 cmds1 where "aof1 = Some a1" "log_ok ok base (clock (req_env q) 0) stores1 a1 cmds1"
    using data_command_live [OF q(1) Cons.prems(2) _ _ Cons.prems(4,5)] Cons.prems(3) by auto
  then show ?case using Cons.IH [of stores1 a1 "clock (req_env q) 0" cmds1] q(2) Cons.prems by simp
qed

section \<open>Replaying the log\<close>

definition steady_env :: "env \<Rightarrow> bool" where
  "steady_env e \<longleftrightarrow> sane_env e \<and> (\<forall>n. \<not> rehashes e n)"

lemma op_safe_replay:
  assumes "spec_exec op (view (clock e 0) s) \<noteq> None" "ttl_free op" "steady_env e"
  shows "op_safe e op s"
  using assms by (cases op) (auto simp: spec_exec_def steady_env_def split: option.splits if_splits)

lemma plain_registry_defined:
  assumes "map_of grammar_table (toUpper n) = None"
  shows "\<exists>res s'. registry_execute (buildCommandRegistry src) e (n # args) s = Inr (res, s')"
  using assms
  by (auto simp: registry_execute_def registry_lookup PingCommand_def MemoryCommand_def InfoCommand_def Let_def
      case_prod_unfold split: list.split option.split)

lemma not_in_grammar_not_logged:
  assumes "map_of grammar_table (toUpper (hd ts)) = None" "toUpper (hd ts) \<noteq> ''MOVE''" "toUpper (hd ts) \<noteq> ''FLUSHALL''"
  shows "\<not> isAofLoggedCommand ts"
  using assms logged_in_grammar [of "toUpper (hd ts)"] by (auto simp: isAofLoggedCommand_iff)

lemma replay_one_refines:
  assumes spec: "spec_replay_one ts (db, views (clock e 0) stores) = Some (db', ds')"
    and st: "good_stores stores" "db < length stores" "steady_env e" "plain_command ts"
  shows "\<exists>stores'. replay_one src e ts (db, stores) = Inr (db', stores') \<and> views (clock e 0) stores' = ds' \<and>
    good_stores stores' \<and> length stores' = length stores"
proof -
  let ?now = "clock e 0" and ?s = "stores ! db"
  have env: "sane_env e" "good_env e" "clock_ok e" using st(3) by (simp_all add: steady_env_def sane_good)
  have wf: "wf_store ?s" "eviction_off ?s" using st(1,2) by (auto simp: good_stores_def)
  obtain n args where ts: "ts = n # args" using st(4) by (cases ts) (auto simp: plain_command_def)
  consider (flush) "toUpper n = ''FLUSHALL''" | (move) "toUpper n = ''MOVE''" | (select) "toUpper n = ''SELECT''"
    | (other) "toUpper n \<noteq> ''FLUSHALL''" "toUpper n \<noteq> ''MOVE''" "toUpper n \<noteq> ''SELECT''" by blast
  then show ?thesis
  proof cases
    case flush
    then show ?thesis using spec st flush_all_refines
      by (auto simp: ts spec_replay_one_def replay_one_def split: if_splits)
  next
    case select
    then show ?thesis using spec st
      by (auto simp: ts spec_replay_one_def replay_one_def split: if_splits option.splits)
  next
    case move
    show ?thesis
    proof (cases "if length ts \<noteq> 3 then None else replay_index (ts ! 2) (length stores)")
      case None
      then show ?thesis using spec st move by (auto simp: ts spec_replay_one_def replay_one_def split: if_splits)
    next
      case (Some j)
      then have "length ts = 3" "replay_index (ts ! 2) (length stores) = Some j" by (auto split: if_splits)
      then show ?thesis
        using spec st(1) move move_between_refines [OF st(1) env(3) st(2) replay_index_less, of "ts ! 2" j "ts ! 1"]
        by (auto simp: ts spec_replay_one_def replay_one_def)
    qed
  next
    case other
    have upd: ?thesis if "registry_execute (buildCommandRegistry src) e ts ?s = Inr (res, s')"
        "ds' = (views ?now stores)[db := view ?now s']" "db' = db" for res s'
    proof -
      have "run_in src e ts db stores = Inr (res, stores[db := s'])" using that(1) by (simp add: run_in_def)
      note good = run_in_good [OF this st(1) env(3) st(2)]
      have "replay_one src e ts (db, stores) = Inr (db, stores[db := s'])"
        using that(1) other by (simp add: ts replay_one_def)
      then show ?thesis using good that(2,3) by (auto simp: map_update)
    qed
    show ?thesis
    proof (cases "map_of grammar_table (toUpper n)")
      case None
      obtain res s' where ex: "registry_execute (buildCommandRegistry src) e ts ?s = Inr (res, s')"
        using plain_registry_defined [OF None] by (metis ts)
      have "view ?now s' = view ?now ?s"
        using registry_not_logged [OF ex _ wf(1) env(3)] not_in_grammar_not_logged [of ts] None other by (simp add: ts)
      then have "(views ?now stores)[db := view ?now s'] = views ?now stores"
        using st(2) by (simp add: list_update_same_conv)
      moreover have "db' = db" "ds' = views ?now stores" using spec other None by (simp_all add: ts spec_replay_one_def)
      ultimately show ?thesis using upd [OF ex] by simp
    next
      case g: (Some g)
      show ?thesis
      proof (cases "g args")
        case (Inl c)
        have "registry_execute (buildCommandRegistry src) e ts ?s = Inr (c, ?s)"
          using registry_grammar_error [OF g Inl] by (simp add: ts)
        moreover have "(views ?now stores)[db := view ?now ?s] = views ?now stores"
          using st(2) by (simp add: list_update_same_conv)
        then have "ds' = (views ?now stores)[db := view ?now ?s]" "db' = db"
          using spec other g Inl by (simp_all add: ts spec_replay_one_def)
        ultimately show ?thesis using upd by blast
      next
        case (Inr op)
        have ex: "spec_exec op (view ?now ?s) = Some (snd (spec_op 0 op (view ?now ?s)))"
            "ds' = (views ?now stores)[db := snd (spec_op 0 op (view ?now ?s))]" "db' = db"
          using spec other g Inr st(2) by (auto simp: ts spec_replay_one_def spec_exec_def split: if_splits)
        have free: "ttl_free op" using st(4) g Inr by (auto simp: plain_command_def ts)
        have "op_safe e op ?s" using ex(1) by (intro op_safe_replay [OF _ free st(3)]) simp
        then obtain r s' where r: "run_op e op ?s = Inr (r, s')"
          using run_op_defined_iff [OF wf env(3), of op] env(1) by (auto simp: sane_env_def)
        have "valid_op op" using grammar_valid_op [OF map_of_SomeD [OF g] Inr] .
        then have "view ?now s' = snd (spec_op 0 op (view ?now ?s))"
          using run_op_step(1) [OF wf env(2) _ r] spec_op_timeless [OF free] by (simp add: spec_step_def)
        moreover have "registry_execute (buildCommandRegistry src) e ts ?s = Inr (render (toUpper n) r, s')"
          using g Inr r by (simp add: ts registry_execute_def registry_lookup via_op_def)
        ultimately show ?thesis using upd ex(2,3) by simp
      qed
    qed
  qed
qed


definition steady_clock :: "(nat \<Rightarrow> env) \<Rightarrow> bool" where
  "steady_clock es \<longleftrightarrow> (\<forall>i. steady_env (es i) \<and> clock (es i) 0 \<le> clock (es (Suc i)) 0)"

lemma replay_all_refines:
  "spec_replay cmds (db, views now stores) = Some (db', ds') \<Longrightarrow> \<forall>ts\<in>set cmds. plain_command ts \<Longrightarrow>
     good_stores stores \<Longrightarrow> plain_dbs (views now stores) \<Longrightarrow> db < length stores \<Longrightarrow> steady_clock es \<Longrightarrow>
     now \<le> clock (es i) 0 \<Longrightarrow>
     \<exists>stores'. replay_all src es i (map resp_command cmds) (db, stores) = Inr (db', stores') \<and>
       (\<forall>later\<ge>clock (es (i + length cmds)) 0. views later stores' = ds')"
proof (induction cmds arbitrary: db stores now i)
  case Nil
  have "views later stores = views now stores" if "clock (es i) 0 \<le> later" for later
    by (rule views_later [OF Nil(4)]) (use Nil(7) that in simp)
  then show ?case using Nil(1) by (auto simp del: map_eq_conv)
next
  case (Cons ts cmds)
  have v: "views (clock (es i) 0) stores = views now stores" using Cons.prems(4,7) by (rule views_later)
  obtain db1 ds1 where one: "spec_replay_one ts (db, views now stores) = Some (db1, ds1)"
      "spec_replay cmds (db1, ds1) = Some (db', ds')"
    using Cons.prems(1) by (auto simp: bind_eq_Some_conv)
  have e: "steady_env (es i)" "clock (es i) 0 \<le> clock (es (Suc i)) 0" using Cons.prems(6) by (auto simp: steady_clock_def)
  obtain stores1 where s1: "replay_one src (es i) ts (db, stores) = Inr (db1, stores1)"
      "views (clock (es i) 0) stores1 = ds1" "good_stores stores1" "length stores1 = length stores"
    using replay_one_refines [OF one(1) [folded v] Cons.prems(3,5) e(1)] Cons.prems(2) by auto
  have "plain_dbs ds1 \<and> db1 < length ds1"
    using spec_replay_one_plain [OF one(1)] Cons.prems(2,4,5) by simp
  moreover have "length ds1 = length stores1" using s1(2) by (metis length_map)
  ultimately obtain stores' where
      "replay_all src es (Suc i) (map resp_command cmds) (db1, stores1) = Inr (db', stores')"
      "\<forall>later\<ge>clock (es (Suc i + length cmds)) 0. views later stores' = ds'"
    using Cons.IH [of db1 "clock (es i) 0" stores1 "Suc i"] one(2) s1(2,3) Cons.prems(2,6) e(2) by auto
  then show ?case using s1(1) by simp
qed

lemma replay_restores:
  assumes log: "log_ok ok base now stores a cmds"
    and fresh: "views start fresh = base" "good_stores fresh" "plain_dbs base" "base \<noteq> []"
    and es: "steady_clock es" "start \<le> clock (es 0) 0" "\<forall>i. clock (es i) 0 \<le> later" "now \<le> later"
  shows "\<exists>restored. replay src es ok (Some (aof_file a)) fresh = Inr restored \<and> views later restored = views later stores"
proof -
  have cmds: "\<forall>ts\<in>set cmds. plain_command ts" "\<forall>ts\<in>set cmds. sendable ts \<and> ok (length ts)"
      "aof_file a = concat (map encodeRespCommand cmds)"
      "spec_replay cmds (0, views start fresh) = Some (currentAppendDatabase a, views now stores)"
    using log fresh(1) by (auto simp: log_ok_def)
  have "0 < length fresh" using fresh(1,4) by auto
  then obtain stores' where r: "replay_all src es 0 (map resp_command cmds) (0, fresh) = Inr (currentAppendDatabase a, stores')"
      "\<forall>later\<ge>clock (es (length cmds)) 0. views later stores' = views now stores"
    using replay_all_refines [OF cmds(4,1) fresh(2) _ _ es(1,2)] fresh(1,3) by auto
  have "parseAvailable ok (aof_file a) = Inr (map resp_command cmds, [])"
    using parseAvailable_encoded_all [OF cmds(2), of "[]"] by (simp add: cmds(3) parseAvailable.simps [of ok "[]"])
  then have "replay src es ok (Some (aof_file a)) fresh = Inr stores'" using r(1) by (simp add: replay_def)
  moreover have "views later stores' = views later stores"
    using r(2) es(3) log_ok_later [OF log es(4)] by simp
  ultimately show ?thesis by blast
qed

definition empty_aof :: Aof where
  "empty_aof = \<lparr>aof_file = [], currentAppendDatabase = 0\<rparr>"

lemma log_ok_empty:
  "good_stores stores \<Longrightarrow> plain_dbs (views now stores) \<Longrightarrow> log_ok ok (views now stores) now stores empty_aof []"
  by (simp add: log_ok_def empty_aof_def)

lemma run_durable:
  assumes "good_stores stores" "stores \<noteq> []" "int (length stores) < llong_max" "plain_dbs (views now stores)"
    and "requests_ok ok (length stores) now qs" "ok 2"
    and "live_run src qs stores (Some empty_aof) = Inr (stores', aof')"
    and "good_stores fresh" "views start fresh = views now stores"
    and "steady_clock es" "start \<le> clock (es 0) 0" "\<forall>i. clock (es i) 0 \<le> later" "last_time now qs \<le> later"
  shows "\<exists>a restored. aof' = Some a \<and> replay src' es ok (Some (aof_file a)) fresh = Inr restored \<and>
    views later restored = views later stores'"
proof -
  obtain a cmds where a: "aof' = Some a" "log_ok ok (views now stores) (last_time now qs) stores' a cmds"
    using live_run_logs [OF assms(7) log_ok_empty [OF assms(1,4)], of ok] assms(3,5,6) by auto
  then show ?thesis
    using replay_restores [OF a(2) assms(9,8,4) _ assms(10-13)] assms(2) by auto
qed

section \<open>Properties\<close>

definition sample_requests :: "request list" where
  "sample_requests =
     [\<lparr>req_env = frozen 2000, req_db = 0, req_tokens = [''SET'', ''k'', ''1'']\<rparr>,
      \<lparr>req_env = frozen 3000, req_db = 1, req_tokens = [''RPUSH'', ''l'', ''x'', ''y'']\<rparr>,
      \<lparr>req_env = frozen 4000, req_db = 0, req_tokens = [''INCR'', ''k'']\<rparr>]"

lemma sane_frozen: "1000 \<le> now \<Longrightarrow> now \<le> 1000000 \<Longrightarrow> sane_env (frozen now)"
  using good_frozen [of now] by (simp add: sane_env_def good_env_def frozen_def)

lemma view_empty_store [simp]: "view now empty_store = Map.empty"
  by (simp add: view_def find_key_def empty_store_def)

lemma sample_requests_ok: "requests_ok (\<lambda>n. n < 100) 2 1000 sample_requests"
proof -
  have "toUpper ''SET'' = ''SET''" "toUpper ''RPUSH'' = ''RPUSH''" "toUpper ''INCR'' = ''INCR''" by code_simp+
  then show ?thesis
    by (simp add: sample_requests_def request_ok_def sane_frozen plain_command_def grammar_table_def sendable_def llong_max_def)
      (simp add: frozen_def is_error_def)
qed



definition lost_pop :: "request list" where
  "lost_pop =
     [\<lparr>req_env = frozen 2000, req_db = 0, req_tokens = [''RPUSH'', ''l'', ''ERR x'']\<rparr>,
      \<lparr>req_env = frozen 3000, req_db = 0, req_tokens = [''LPOP'', ''l'']\<rparr>]"


definition after_restart :: "Aof \<Rightarrow> Aof" where
  "after_restart a = \<lparr>aof_file = aof_file a, currentAppendDatabase = 0\<rparr>"

definition set_in :: "nat \<Rightarrow> string \<Rightarrow> request list" where
  "set_in db k = [\<lparr>req_env = frozen 2000, req_db = db, req_tokens = [''SET'', k, ''v'']\<rparr>]"


end
