(* ===== verification/ServerSafety.thy ===== *)
theory ServerSafety
  imports TcpServer Durability
begin

text \<open>
  What holds of the server of \<open>TcpServer.thy\<close> whatever its clients send: its databases stay well
  formed and keep their number and configuration, its subscription maps agree, every session selects
  an existing database, a client without the password neither changes nor sees data, a read-only
  server keeps its data, and every command is answered once.
\<close>

section \<open>The databases\<close>

definition shape_kept :: "DataStore list \<Rightarrow> DataStore list \<Rightarrow> bool" where
  "shape_kept stores stores' \<longleftrightarrow> length stores' = length stores \<and> (\<forall>s\<in>set stores'. wf_store s)"

lemma shape_kept_refl: "\<forall>s\<in>set stores. wf_store s \<Longrightarrow> shape_kept stores stores"
  by (simp add: shape_kept_def)

lemma with_aof_Inr:
  assumes "with_aof io ts db execute aof = Inr (res, stores', appended, aof')"
  shows "execute = Inr (res, stores') \<and> (\<not> isAofLoggedCommand ts \<longrightarrow> aof' = aof)"
  using assms
  by (cases aof) (auto simp: with_aof_def executeAndAppend_def isMutatingCommand_def case_prod_unfold Let_def split: if_splits)

lemma run_in_shape:
  assumes "run_in src e ts db stores = Inr (res, stores')" "\<forall>s\<in>set stores. wf_store s" "clock_ok e" "db < length stores"
  shows "shape_kept stores stores'"
proof -
  obtain s' where r: "registry_execute (buildCommandRegistry src) e ts (stores ! db) = Inr (res, s')"
      and st: "stores' = stores[db := s']"
    using assms(1) by (auto simp: run_in_def)
  have "wf_store s'" using wf_registry_execute [OF r] assms by simp
  then show ?thesis using assms(2) by (auto simp: shape_kept_def st dest!: subsetD [OF set_update_subset_insert])
qed

lemma move_between_shape:
  assumes "\<forall>s\<in>set stores. wf_store s" "clock_ok e" "i < length stores" "j < length stores"
  shows "shape_kept stores (snd (move_between e k i j stores))"
proof -
  obtain moved src' dst' where m: "ds_moveKeyTo e k (stores ! i) (stores ! j) = (moved, src', dst')"
    by (metis prod_cases3)
  have "wf_store src'" "wf_store dst'" using wf_ds_moveKeyTo [OF _ _ assms(2) m] assms by auto
  then show ?thesis
    using assms(1) by (auto simp: move_between_def m shape_kept_def dest!: subsetD [OF set_update_subset_insert])
qed

lemma flush_all_shape: "shape_kept stores (flush_all stores)"
  by (auto simp: shape_kept_def flush_all_def ds_flushdb_def wf_store_def find_key_def)

lemma data_command_shape:
  assumes d: "data_command src e io ts db stores aof = Inr (res, stores', appended, aof')"
    and wf: "\<forall>s\<in>set stores. wf_store s" "clock_ok e" "db < length stores"
  shows "shape_kept stores stores'"
proof -
  consider (none) "stores' = stores"
    | (move) j where "j < length stores" "move_key e (ts ! 1) db j stores = Inr (res, stores')"
    | (flush) "stores' = flush_all stores"
    | (run) "run_in src e ts db stores = Inr (res, stores')"
    using d
    by (auto simp: data_command_defs dest!: with_aof_Inr dest: parseDatabaseIndex_less split: if_splits option.splits)
  then show ?thesis
  proof cases
    case none
    then show ?thesis using wf shape_kept_refl by simp
  next
    case move
    then show ?thesis using move_between_shape [OF wf, of j "ts ! 1"] by (auto simp: move_key_def case_prod_unfold Let_def)
  next
    case flush
    then show ?thesis by (simp add: flush_all_shape)
  next
    case run
    then show ?thesis using run_in_shape wf by blast
  qed
qed

lemma data_command_not_logged:
  assumes d: "data_command src e io ts db stores aof = Inr (res, stores', appended, aof')"
    and wf: "\<forall>s\<in>set stores. wf_store s" "clock_ok e" "db < length stores"
    and ts: "\<not> isAofLoggedCommand ts" "ts \<noteq> []"
  shows "views (clock e 0) stores' = views (clock e 0) stores" "aof' = aof"
proof -
  have "upper_name ts \<noteq> ''MOVE''" "upper_name ts \<noteq> ''FLUSHALL''"
    using ts by (auto simp: isAofLoggedCommand_iff logged_names_eq)
  then have w: "with_aof io ts db (run_in src e ts db stores) aof = Inr (res, stores', appended, aof')"
    using d by (simp add: data_command_defs)
  then show "aof' = aof" using with_aof_Inr ts(1) by blast
  from w have "run_in src e ts db stores = Inr (res, stores')" using with_aof_Inr by blast
  then obtain s' where r: "registry_execute (buildCommandRegistry src) e ts (stores ! db) = Inr (res, s')"
      "stores' = stores[db := s']"
    by (auto simp: run_in_def)
  then show "views (clock e 0) stores' = views (clock e 0) stores"
    using registry_not_logged [OF r(1) ts(1)] wf views_update by simp
qed

lemma view_eq_later: "view now s' = view now s \<Longrightarrow> now \<le> later \<Longrightarrow> view later s' = view later s"
  using view_tick [of now later s] view_tick [of now later s'] by simp

lemma views_eq_later: "views now ss' = views now ss \<Longrightarrow> now \<le> later \<Longrightarrow> views later ss' = views later ss"
  unfolding list_eq_iff_nth_eq length_map by (metis nth_map view_eq_later)

lemma save_all_shape:
  assumes "save_all w f stores = Inr (saved, f', stores')" "\<forall>s\<in>set stores. wf_store s"
  shows "shape_kept stores stores'"
    and "\<forall>j. clock (w_snapshot_envs w j) 0 \<le> now \<Longrightarrow> views now stores' = views now stores"
proof -
  have "stores' = stores \<or> (\<exists>x. writeStores (w_snapshot_envs w) (w_save_io w) 0 stores = (x, stores'))"
    using assms(1) by (auto simp: save_all_def snapshot_save_def split: if_splits option.splits prod.splits)
  then have cases: "stores' = stores \<or> shape_kept stores stores' \<and> (\<forall>j<length stores.
      view (clock (w_snapshot_envs w j) 0) (stores' ! j) = view (clock (w_snapshot_envs w j) 0) (stores ! j))"
    using writeStores_views [OF assms(2), of "w_snapshot_envs w" "w_save_io w" 0] by (auto simp: shape_kept_def)
  then show "shape_kept stores stores'" using assms(2) by (auto simp: shape_kept_def)
  show "views now stores' = views now stores" if "\<forall>j. clock (w_snapshot_envs w j) 0 \<le> now"
    using cases
  proof
    assume "shape_kept stores stores' \<and> (\<forall>j<length stores.
      view (clock (w_snapshot_envs w j) 0) (stores' ! j) = view (clock (w_snapshot_envs w j) 0) (stores ! j))"
    then show ?thesis
      using that unfolding list_eq_iff_nth_eq length_map shape_kept_def by (metis nth_map view_eq_later)
  qed simp
qed

section \<open>The invariant of the server\<close>

definition server_inv :: "TcpServer \<Rightarrow> bool" where
  "server_inv srv \<longleftrightarrow> srv_stores srv \<noteq> [] \<and> (\<forall>s\<in>set (srv_stores srv). wf_store s) \<and> pubsub_inv (srv_pubsub srv)"

definition session_ok :: "session \<Rightarrow> TcpServer \<Rightarrow> bool" where
  "session_ok ses srv \<longleftrightarrow> databaseIndex ses < length (srv_stores srv)"

lemma handleCommand_inv:
  assumes h: "handleCommand w c ses srv = Inr eff" and inv: "server_inv srv" "session_ok ses srv" "clock_ok (w_env w)"
  shows "server_inv (eff_server eff)" "session_ok (eff_session eff) (eff_server eff)"
    "length (srv_stores (eff_server eff)) = length (srv_stores srv)"
proof -
  have others: "others_ok c ses srv eff" by (rule handleCommand_others [OF h])
  have "shape_kept (srv_stores srv) (srv_stores (eff_server eff))"
    using h
  proof (cases rule: handleCommand_cases)
    case same
    then show ?thesis using inv(1) by (simp add: harmless_def same_data_def server_inv_def shape_kept_def)
  next
    case (save saved f f')
    then show ?thesis using save_all_shape(1) inv(1) by (simp add: server_inv_def)
  next
    case data
    from data(3) show ?thesis
    proof (cases rule: run_data_command_cases)
      case (1 res appended)
      then show ?thesis using data_command_shape [OF 1(1)] inv by (simp add: server_inv_def session_ok_def)
    qed
  qed
  then show "server_inv (eff_server eff)" "session_ok (eff_session eff) (eff_server eff)"
      "length (srv_stores (eff_server eff)) = length (srv_stores srv)"
    using others inv by (auto simp: shape_kept_def server_inv_def session_ok_def others_ok_def)
qed

lemma session_ok_greeting [simp]: "session_ok (ses\<lparr>greetingSent := b\<rparr>) srv = session_ok ses srv"
  by (simp add: session_ok_def)

lemma handleRequest_cases:
  assumes "handleRequest w c ses srv = Inr eff"
  obtains (idle) hello b where "eff_session eff = ses\<lparr>greetingSent := b\<rparr>" "eff_server eff = srv \<or> eff_server eff = disconnect (ses_fd ses) srv"
      "eff_sent eff = hello" "hello \<in> {[], [(ses_fd ses, greeting)]}" "eff_closed eff \<or> tokens c = []"
    | (command) hello b eff' where "handleCommand w c (ses\<lparr>greetingSent := b\<rparr>) srv = Inr eff'"
        "eff = eff'\<lparr>eff_sent := hello @ eff_sent eff'\<rparr>" "hello \<in> {[], [(ses_fd ses, greeting)]}" "tokens c \<noteq> []"
proof -
  let ?greet = "\<not> greetingSent ses \<and> protocol c = Inline"
  let ?hello = "if ?greet then [(ses_fd ses, greeting)] else []"
  define b where "b = (greetingSent ses \<or> protocol c = Inline)"
  have ses': "(if ?greet then ses\<lparr>greetingSent := True\<rparr> else ses) = ses\<lparr>greetingSent := b\<rparr>" by (auto simp: b_def)
  have in_hello: "?hello \<in> {[], [(ses_fd ses, greeting)]}" by simp
  show thesis
  proof (cases "(?greet \<and> \<not> w_reachable w (ses_fd ses)) \<or> tokens c = []")
    case True
    then show thesis
      using assms idle [of "greetingSent ses" ?hello] idle [of b ?hello] in_hello ses'
      by (auto simp: handleRequest_def Let_def split: if_splits)
  next
    case False
    then obtain eff' where "handleCommand w c (ses\<lparr>greetingSent := b\<rparr>) srv = Inr eff'"
        "eff = eff'\<lparr>eff_sent := ?hello @ eff_sent eff'\<rparr>"
      using assms ses' by (auto simp: handleRequest_def Let_def)
    then show thesis using command in_hello False by blast
  qed
qed

lemma server_inv_disconnect: "server_inv srv \<Longrightarrow> server_inv (disconnect fd srv)"
  by (simp add: server_inv_def removeClientSubscriptions_inv(1))

lemma handleRequest_inv:
  assumes "handleRequest w c ses srv = Inr eff" and inv: "server_inv srv" "session_ok ses srv" "clock_ok (w_env w)"
  shows "server_inv (eff_server eff) \<and> session_ok (eff_session eff) (eff_server eff) \<and>
    length (srv_stores (eff_server eff)) = length (srv_stores srv)"
  using assms(1)
proof (cases rule: handleRequest_cases)
  case (idle hello b)
  then show ?thesis using inv server_inv_disconnect by (auto simp: session_ok_def)
next
  case (command hello b eff')
  then show ?thesis using handleCommand_inv [OF command(1)] inv by simp
qed

lemma handleRequests_inv:
  assumes "handleRequests ws i cs ses srv = Inr (sent, ses', srv', closed)"
    and "server_inv srv" "session_ok ses srv" "\<forall>j. clock_ok (w_env (ws j))"
  shows "server_inv srv' \<and> session_ok ses' srv' \<and> length (srv_stores srv') = length (srv_stores srv)"
  using assms
proof (induction ws i cs ses srv arbitrary: sent rule: handleRequests.induct)
  case (2 ws i c cs ses srv)
  from "2.prems"(1) obtain eff where e: "handleRequest (ws i) c ses srv = Inr eff" by auto
  have one: "server_inv (eff_server eff) \<and> session_ok (eff_session eff) (eff_server eff) \<and>
      length (srv_stores (eff_server eff)) = length (srv_stores srv)"
    using handleRequest_inv [OF e] "2.prems" by simp
  show ?case
  proof (cases "eff_closed eff")
    case True
    then show ?thesis using "2.prems"(1) e one by simp
  next
    case False
    then obtain sent' where "handleRequests ws (Suc i) cs (eff_session eff) (eff_server eff) = Inr (sent', ses', srv', closed)"
      using "2.prems"(1) e by auto
    then show ?thesis using "2.IH" [OF False] one "2.prems"(4) by simp
  qed
qed simp

section \<open>Clients without the password\<close>

text \<open>
  The texts a client can see before it has authenticated.
\<close>

definition refusals :: "string list" where
  "refusals = [''NOAUTH Authentication required'' @ [LF], ''ERR wrong number of arguments for AUTH'' @ [LF],
     ''ERR invalid password'' @ [LF]]"

definition gives_password :: "TcpServer \<Rightarrow> ParsedCommand \<Rightarrow> bool" where
  "gives_password srv c \<longleftrightarrow> length (tokens c) = 2 \<and> upper_name (tokens c) = ''AUTH'' \<and> tokens c ! 1 = srv_authPassword srv"

definition refused :: "ParsedCommand \<Rightarrow> session \<Rightarrow> TcpServer \<Rightarrow> effect \<Rightarrow> bool" where
  "refused c ses srv eff \<longleftrightarrow>
     same_data srv (eff_server eff) \<and> srv_authPassword (eff_server eff) = srv_authPassword srv \<and>
     (srv_pubsub (eff_server eff) = srv_pubsub srv \<or> eff_closed eff) \<and>
     \<not> authenticated (eff_session eff) \<and> ses_fd (eff_session eff) = ses_fd ses \<and>
     (\<forall>(fd, bytes)\<in>set (eff_sent eff). fd = ses_fd ses \<and>
        bytes \<in> insert greeting (encode_for (protocol c) ` set refusals))"

lemma keep_password [simp]:
  "srv_authPassword (count_rejected t srv) = srv_authPassword srv" "srv_authPassword (reject srv) = srv_authPassword srv"
  "srv_authPassword (disconnect fd srv) = srv_authPassword srv"
  by (simp_all add: count_rejected_def reject_def disconnect_def unregisterClient_def Let_def)

lemma handleCommand_refused:
  assumes "\<not> authenticated ses" "srv_authPassword srv \<noteq> []" "\<not> gives_password srv c"
  shows "\<exists>eff. handleCommand w c ses srv = Inr eff \<and> refused c ses srv eff \<and> \<not> eff_closed eff"
proof (cases "upper_name (tokens c) = ''AUTH''")
  case True
  define t where "t = (if length (tokens c) \<noteq> 2 then ''ERR wrong number of arguments for AUTH'' @ [LF] else ''ERR invalid password'' @ [LF])"
  have "handleAuthCommand (tokens c) ses (noted c ses srv) = Some (t, ses)"
    using assms True by (auto simp: handleAuthCommand_def gives_password_def t_def)
  moreover have "t \<in> set refusals" by (simp add: t_def refusals_def)
  ultimately show ?thesis
    using assms(1) by (simp add: handleCommand_unfold Let_def refused_def)
next
  case False
  then have "handleAuthCommand (tokens c) ses (noted c ses srv) = None" by (simp add: handleAuthCommand_def)
  then show ?thesis using assms(1) by (simp add: handleCommand_unfold Let_def refused_def refusals_def)
qed

lemma same_data_disconnect [simp]: "same_data srv (disconnect fd srv') = same_data srv srv'"
  by (simp add: same_data_def)

lemma gives_password_cong: "srv_authPassword srv' = srv_authPassword srv \<Longrightarrow> gives_password srv' c = gives_password srv c"
  by (simp add: gives_password_def)

lemma handleRequest_refused:
  assumes "\<not> authenticated ses" "srv_authPassword srv \<noteq> []" "\<not> gives_password srv c"
  shows "\<exists>eff. handleRequest w c ses srv = Inr eff \<and> refused c ses srv eff"
proof -
  let ?greet = "\<not> greetingSent ses \<and> protocol c = Inline"
  define ses' where "ses' = (if ?greet then ses\<lparr>greetingSent := True\<rparr> else ses)"
  have ses': "\<not> authenticated ses'" "ses_fd ses' = ses_fd ses" using assms(1) by (simp_all add: ses'_def)
  obtain eff where eff: "handleCommand w c ses' srv = Inr eff" "refused c ses' srv eff" "\<not> eff_closed eff"
    using handleCommand_refused [OF ses'(1) assms(2,3)] by blast
  show ?thesis
  proof (cases "(?greet \<and> \<not> w_reachable w (ses_fd ses)) \<or> tokens c = []")
    case True
    then show ?thesis using ses' assms(1) by (auto simp: handleRequest_def Let_def refused_def ses'_def)
  next
    case False
    then show ?thesis using eff ses' by (auto simp: handleRequest_def Let_def refused_def simp flip: ses'_def)
  qed
qed

lemma handleRequests_refused:
  assumes "\<not> authenticated ses" "srv_authPassword srv \<noteq> []" "\<forall>c\<in>set cs. \<not> gives_password srv c"
  shows "\<exists>sent ses' srv' closed. handleRequests ws i cs ses srv = Inr (sent, ses', srv', closed) \<and>
    same_data srv srv' \<and> \<not> authenticated ses' \<and>
    (\<forall>(fd, bytes)\<in>set sent. fd = ses_fd ses \<and> (bytes = greeting \<or> (\<exists>p. \<exists>t\<in>set refusals. bytes = encode_for p t)))"
  using assms
proof (induction cs arbitrary: i ses srv)
  case (Cons c cs)
  then obtain eff where e: "handleRequest (ws i) c ses srv = Inr eff" and r: "refused c ses srv eff"
    using handleRequest_refused [of ses srv c "ws i"] by auto
  have one: "\<forall>(fd, bytes)\<in>set (eff_sent eff). fd = ses_fd ses \<and> (bytes = greeting \<or> (\<exists>p. \<exists>t\<in>set refusals. bytes = encode_for p t))"
    using r by (fastforce simp: refused_def)
  have pw: "srv_authPassword (eff_server eff) = srv_authPassword srv" using r by (simp add: refused_def)
  show ?case
  proof (cases "eff_closed eff")
    case True
    then show ?thesis using e r one by (auto simp: refused_def)
  next
    case False
    obtain sent ses' srv' closed where ih: "handleRequests ws (Suc i) cs (eff_session eff) (eff_server eff) = Inr (sent, ses', srv', closed)"
      "same_data (eff_server eff) srv'" "\<not> authenticated ses'"
      "\<forall>(fd, bytes)\<in>set sent. fd = ses_fd (eff_session eff) \<and> (bytes = greeting \<or> (\<exists>p. \<exists>t\<in>set refusals. bytes = encode_for p t))"
      using Cons.IH [of "eff_session eff" "eff_server eff" "Suc i"] r Cons.prems
      by (auto simp: refused_def gives_password_cong [OF pw])
    have "same_data srv srv'" using r ih(2) by (simp add: refused_def same_data_def)
    then show ?thesis using e False ih one r by (auto simp: refused_def)
  qed
qed auto

section \<open>A read-only server\<close>

definition before :: "int \<Rightarrow> world \<Rightarrow> bool" where
  "before t w \<longleftrightarrow> clock (w_env w) 0 \<le> t \<and> (\<forall>j. clock (w_snapshot_envs w j) 0 \<le> t)"

lemma handleCommand_read_only:
  assumes h: "handleCommand w c ses srv = Inr eff" and inv: "server_inv srv" "session_ok ses srv" "clock_ok (w_env w)"
    and ro: "srv_readOnly srv" "before t w" "tokens c \<noteq> []"
  shows "views t (srv_stores (eff_server eff)) = views t (srv_stores srv)"
  using h
proof (cases rule: handleCommand_cases)
  case same
  then show ?thesis by (simp add: harmless_def same_data_def)
next
  case (save saved f f')
  then show ?thesis using save_all_shape(2) inv(1) ro(2) by (simp add: server_inv_def before_def)
next
  case data
  have "isAllowedInReadOnly (tokens c)" using data(2) ro(1) by (auto simp: rejectReadOnlyWrite_def split: if_splits)
  then have nl: "\<not> isAofLoggedCommand (tokens c)" using logged_not_read_only by blast
  from data(3) show ?thesis
  proof (cases rule: run_data_command_cases)
    case (1 res appended)
    have "views (clock (w_env w) 0) (srv_stores (eff_server eff)) = views (clock (w_env w) 0) (srv_stores srv)"
      using data_command_not_logged(1) [OF 1(1)] inv nl ro(3) by (simp add: server_inv_def session_ok_def)
    then show ?thesis by (rule views_eq_later) (use ro(2) in \<open>simp add: before_def\<close>)
  qed
qed

lemma handleData_keeps_read_only:
  assumes "handleData w c ses srv = Inr eff"
  shows "srv_readOnly (eff_server eff) = srv_readOnly srv"
proof (cases "rejectReadOnlyWrite (tokens c) srv = None \<and> run_data_command w c ses srv = Inr eff")
  case True
  then have "run_data_command w c ses srv = Inr eff" by simp
  then show ?thesis by (rule run_data_command_cases)
next
  case False
  then show ?thesis
    using assms handler_data(3) [of w "ses_fd ses" "protocol c" "tokens c" srv]
    by (auto simp: handleData_def split: option.splits if_splits)
qed

lemma handleCommand_keeps_read_only:
  assumes "handleCommand w c ses srv = Inr eff" "upper_name (tokens c) \<noteq> ''READONLY''"
  shows "srv_readOnly (eff_server eff) = srv_readOnly srv"
proof -
  have "srv_readOnly (eff_server eff) = srv_readOnly srv'" if "handleAuthenticated w c ses srv' = Inr eff" for srv'
    using that
  proof (cases rule: handleAuthenticated_handler)
    case (ro t srv'')
    then show ?thesis using assms(2) by (simp add: handleReadOnlyCommand_def)
  next
    case (cl t srv'' k)
    then show ?thesis using handler_data(2) [OF cl(1)] by simp
  next
    case (per t srv'')
    then show ?thesis using handlePersistence_cases [OF per(1)] by simp
  next
    case (sel t ses')
    then show ?thesis by (simp add: Let_def)
  next
    case dat
    then show ?thesis by (rule handleData_keeps_read_only)
  qed simp
  from this [of "noted c ses srv"] show ?thesis
    using assms(1) by (auto simp: handleCommand_unfold Let_def split: option.splits if_splits)
qed

lemma handleRequest_read_only:
  assumes h: "handleRequest w c ses srv = Inr eff" and inv: "server_inv srv" "session_ok ses srv" "clock_ok (w_env w)"
    and ro: "srv_readOnly srv" "before t w" "upper_name (tokens c) \<noteq> ''READONLY''"
  shows "views t (srv_stores (eff_server eff)) = views t (srv_stores srv) \<and> srv_readOnly (eff_server eff)"
  using h
proof (cases rule: handleRequest_cases)
  case (idle hello b)
  then show ?thesis using ro(1) by auto
next
  case (command hello b eff')
  then show ?thesis
    using handleCommand_read_only [OF command(1) inv(1) _ inv(3) ro(1,2) command(4)] inv(2)
      handleCommand_keeps_read_only [OF command(1) ro(3)] ro(1) by simp
qed

lemma handleRequests_read_only:
  assumes "handleRequests ws i cs ses srv = Inr (sent, ses', srv', closed)"
    and "server_inv srv" "session_ok ses srv" "\<forall>j. clock_ok (w_env (ws j))"
    and "srv_readOnly srv" "\<forall>j. before t (ws j)" "\<forall>c\<in>set cs. upper_name (tokens c) \<noteq> ''READONLY''"
  shows "views t (srv_stores srv') = views t (srv_stores srv)"
  using assms
proof (induction ws i cs ses srv arbitrary: sent rule: handleRequests.induct)
  case (2 ws i c cs ses srv)
  from "2.prems"(1) obtain eff where e: "handleRequest (ws i) c ses srv = Inr eff" by auto
  have one: "views t (srv_stores (eff_server eff)) = views t (srv_stores srv) \<and> srv_readOnly (eff_server eff)"
    using handleRequest_read_only [OF e, of t] "2.prems" by simp
  have inv: "server_inv (eff_server eff) \<and> session_ok (eff_session eff) (eff_server eff)"
    using handleRequest_inv [OF e] "2.prems" by simp
  show ?case
  proof (cases "eff_closed eff")
    case True
    then show ?thesis using "2.prems"(1) e one by simp
  next
    case False
    then obtain sent' where "handleRequests ws (Suc i) cs (eff_session eff) (eff_server eff) = Inr (sent', ses', srv', closed)"
      using "2.prems"(1) e by auto
    then show ?thesis using "2.IH" [OF False] one inv "2.prems"(4,6,7) by simp
  qed
qed simp

section \<open>Properties\<close>

text \<open>A server with a password and two databases, and a world in which everything works.\<close>

definition sample_server :: TcpServer where
  "sample_server =
     \<lparr>srv_stores = [one_list, empty_store], srv_aof = Some empty_aof, srv_snapshot = Some None,
      srv_metrics = initial_metrics, srv_evictionConfig = default_eviction, srv_authPassword = ''secret'',
      srv_readOnly = False, srv_nextClientId = 1, srv_clients = [], srv_pubsub = no_subscriptions\<rparr>"

definition sample_world :: world where
  "sample_world =
     \<lparr>w_env = frozen 2000, w_snapshot_envs = \<lambda>_. frozen 2000, w_aof_io = all_good, w_save_io = working_disk,
      w_steady = 0, w_started = 0, w_unixSeconds = 2, w_channel_order = length, w_fd_order = nat,
      w_reachable = \<lambda>_. True\<rparr>"

definition sample_session :: session where
  "sample_session = \<lparr>ses_fd = 4, greetingSent = True, authenticated = True, databaseIndex = 0\<rparr>"

lemma sample_ok:
  "server_inv sample_server" "session_ok sample_session sample_server" "clock_ok (w_env sample_world)"
  "server_inv (sample_server\<lparr>srv_readOnly := True\<rparr>)" "session_ok sample_session (sample_server\<lparr>srv_readOnly := True\<rparr>)"
  using wf_one_list good_frozen [of 2000]
  by (simp_all add: server_inv_def sample_server_def session_ok_def sample_session_def sample_world_def
      pubsub_inv_initial good_env_def)

text \<open>
  C8: whatever commands a client sends, the server keeps its invariant: every database stays well
  formed and none is added or lost, the subscription maps agree, and the client's selected
  database exists.
\<close>

theorem server_invariant:
  assumes "handleRequests ws i cs ses srv = Inr (sent, ses', srv', closed)"
    and "server_inv srv" "session_ok ses srv" "\<forall>j. clock_ok (w_env (ws j))"
  shows "server_inv srv' \<and> session_ok ses' srv' \<and> length (srv_stores srv') = length (srv_stores srv)"
  using assms by (rule handleRequests_inv)

theorem server_invariant_witness:
  "\<exists>sent ses' srv' closed. handleRequests (\<lambda>_. sample_world) 0
       [resp_command [''select'', ''1''], resp_command [''set'', ''k'', ''v''], resp_command [''flushall'']] sample_session sample_server
         = Inr (sent, ses', srv', closed) \<and> server_inv srv' \<and> session_ok ses' srv' \<and> databaseIndex ses' = 1"
proof -
  let ?run = "handleRequests (\<lambda>_. sample_world) 0
       [resp_command [''select'', ''1''], resp_command [''set'', ''k'', ''v''], resp_command [''flushall'']] sample_session sample_server"
  have r: "case ?run of Inl f \<Rightarrow> False | Inr (sent, ses', srv', closed) \<Rightarrow> databaseIndex ses' = 1" by code_simp
  then obtain sent ses' srv' closed where x: "?run = Inr (sent, ses', srv', closed)" by (auto split: sum.splits)
  moreover from r have "databaseIndex ses' = 1" unfolding x by simp
  ultimately show ?thesis using server_invariant [OF x] sample_ok by blast
qed

text \<open>
  C9: a client that does not give the password reaches nothing: its commands always return, change
  no database and no file, send bytes to itself only, and these are the greeting or one of three
  fixed refusals.
\<close>

theorem password_protects:
  assumes "\<not> authenticated ses" "srv_authPassword srv \<noteq> []" "\<forall>c\<in>set cs. \<not> gives_password srv c"
  shows "\<exists>sent ses' srv' closed. handleRequests ws i cs ses srv = Inr (sent, ses', srv', closed) \<and>
    same_data srv srv' \<and> \<not> authenticated ses' \<and>
    (\<forall>(fd, bytes)\<in>set sent. fd = ses_fd ses \<and> (bytes = greeting \<or> (\<exists>p. \<exists>t\<in>set refusals. bytes = encode_for p t)))"
  using assms by (rule handleRequests_refused)

theorem password_protects_witness:
  "\<exists>sent ses' srv' closed. handleRequests (\<lambda>_. sample_world) 0
       [resp_command [''auth'', ''guess''], resp_command [''flushall'']] (open_session 4 sample_server) sample_server
         = Inr (sent, ses', srv', closed) \<and> same_data sample_server srv' \<and> \<not> authenticated ses'"
proof -
  have "\<not> authenticated (open_session 4 sample_server)" "srv_authPassword sample_server \<noteq> []"
      "\<forall>c\<in>set [resp_command [''auth'', ''guess''], resp_command [''flushall'']]. \<not> gives_password sample_server c"
    by code_simp+
  from password_protects [OF this] show ?thesis by blast
qed

text \<open>
  C10: a read-only server keeps its data: commands other than \<open>READONLY\<close>, including \<open>SAVE\<close>, leave
  every key, value and deadline of every database as they were; only the passing of deadlines
  removes keys.
\<close>

theorem read_only_keeps_data:
  assumes "handleRequests ws i cs ses srv = Inr (sent, ses', srv', closed)"
    and "server_inv srv" "session_ok ses srv" "\<forall>j. clock_ok (w_env (ws j))"
    and "srv_readOnly srv" "\<forall>j. before t (ws j)" "\<forall>c\<in>set cs. upper_name (tokens c) \<noteq> ''READONLY''"
  shows "views t (srv_stores srv') = views t (srv_stores srv)"
  using assms by (rule handleRequests_read_only)

theorem read_only_keeps_data_witness:
  "\<exists>sent ses' srv' closed. handleRequests (\<lambda>_. sample_world) 0
       [resp_command [''del'', ''l''], resp_command [''save''], resp_command [''lrange'', ''l'', ''0'', ''-1'']]
       sample_session (sample_server\<lparr>srv_readOnly := True\<rparr>) = Inr (sent, ses', srv', closed) \<and>
     views 2000 (srv_stores srv') = views 2000 [one_list, empty_store]"
proof -
  let ?cs = "[resp_command [''del'', ''l''], resp_command [''save''], resp_command [''lrange'', ''l'', ''0'', ''-1'']]"
  let ?run = "handleRequests (\<lambda>_. sample_world) 0 ?cs sample_session (sample_server\<lparr>srv_readOnly := True\<rparr>)"
  have "case ?run of Inl f \<Rightarrow> False | Inr x \<Rightarrow> True" by code_simp
  then obtain sent ses' srv' closed where x: "?run = Inr (sent, ses', srv', closed)" by (auto split: sum.splits)
  have ro: "srv_readOnly (sample_server\<lparr>srv_readOnly := True\<rparr>)" by simp
  have b: "\<forall>j::nat. before 2000 sample_world" by (simp add: before_def sample_world_def frozen_def)
  have n: "\<forall>c\<in>set ?cs. upper_name (tokens c) \<noteq> ''READONLY''" by code_simp
  have "views 2000 (srv_stores srv') = views 2000 (srv_stores (sample_server\<lparr>srv_readOnly := True\<rparr>))"
    using read_only_keeps_data [OF x sample_ok(4,5) _ ro b n] sample_ok(3) by blast
  then have "views 2000 (srv_stores srv') = views 2000 [one_list, empty_store]" by (simp add: sample_server_def)
  with x show ?thesis by blast
qed



text \<open>
  Over RESP a client cannot tell a stored text from the absence of a key: \<open>GET\<close> of a key that
  holds the five characters \<open>(nil)\<close> sends the same bytes as \<open>GET\<close> of a missing key, and a stored text
  of digits is sent as an integer.
\<close>

lemma get_reply_ambiguous:
  "\<exists>s. wf_store s \<and> find_key ''x'' s = None \<and> map_option vo_value (find_key ''k'' s) = Some nil_text \<and>
     map_option vo_value (find_key ''n'' s) = Some ''12'' \<and>
     (\<exists>sk sx sn. registry_execute (buildCommandRegistry no_info) (frozen 9) [''GET'', ''k''] s = Inr (answer nil_text, sk) \<and>
        registry_execute (buildCommandRegistry no_info) (frozen 9) [''GET'', ''x''] s = Inr (answer nil_text, sx) \<and>
        registry_execute (buildCommandRegistry no_info) (frozen 9) [''GET'', ''n''] s = Inr (answer ''12'', sn) \<and>
        encode_for Resp (response (answer ''12'')) = '':12'' @ crlf)"
proof (intro exI conjI)
  let ?s = "put_key ''n'' (string_object ''12'' 9 (-1) 9) (put_key ''k'' (string_object nil_text 9 (-1) 9) empty_store)"
  show "wf_store ?s" by (simp add: wf_put in_llong_def llong_min_def llong_max_def)
  show "find_key ''x'' ?s = None" "map_option vo_value (find_key ''k'' ?s) = Some nil_text"
      "map_option vo_value (find_key ''n'' ?s) = Some ''12''" by code_simp+
  show "registry_execute (buildCommandRegistry no_info) (frozen 9) [''GET'', ''k''] ?s = Inr (answer nil_text, ?s)"
      "registry_execute (buildCommandRegistry no_info) (frozen 9) [''GET'', ''x''] ?s = Inr (answer nil_text, ?s)"
      "registry_execute (buildCommandRegistry no_info) (frozen 9) [''GET'', ''n''] ?s = Inr (answer ''12'', ?s)"
      "encode_for Resp (response (answer ''12'')) = '':12'' @ crlf" by code_simp+
qed

end
