(* ===== verification/Serving.thy ===== *)
theory Serving
  imports ServerSafety
begin

text \<open>
  The running program: the connections with their unread bytes and parsed commands, the server they
  share, and the two background workers (\<open>src/swiftcache/src/core/ExpiryWorker.cpp\<close> and
  \<open>SnapshotWorker.cpp\<close>). A step is the acceptance of a connection, the arrival of bytes, the execution
  of one parsed command, the end of a connection, or a round of a worker; steps of different
  connections interleave in any order. A command and a round of a worker is one step: the mutexes of
  the stores, of the append-only file and of the subscription maps serialise what the threads share,
  and the model does not split a command between two of these locks.
\<close>

section \<open>Background workers\<close>

text \<open>One round of \<open>ExpiryWorker::run\<close>: every database is swept, each at its own time.\<close>

fun expiry_round :: "(nat \<Rightarrow> env) \<Rightarrow> nat \<Rightarrow> DataStore list \<Rightarrow> DataStore list" where
  "expiry_round es i [] = []"
| "expiry_round es i (s # ss) = snd (ds_removeExpired (es i) s) # expiry_round es (Suc i) ss"

text \<open>One round of \<open>SnapshotWorker::run\<close>; \<open>main\<close> starts the worker only with a snapshot file.\<close>

definition snapshot_round :: "world \<Rightarrow> string option \<Rightarrow> TcpServer \<Rightarrow> TcpServer outcome" where
  "snapshot_round w file srv =
     and_then (saveSnapshot w file srv) (\<lambda>(saved, srv').
       Inr (if saved then srv'\<lparr>srv_metrics := snapshotSaved (w_unixSeconds w) (srv_metrics srv')\<rparr> else srv'))"

section \<open>The system\<close>

record connection =
  con_session :: session
  con_pending :: string
  con_queue :: "ParsedCommand list"

record system =
  sys_server :: TcpServer
  sys_connections :: "(int \<times> connection) list"

datatype event = Accept int | Receive int string | Execute int | HangUp int | ExpiryRound | SnapshotRound

text \<open>
  A step that is not possible in a state is \<open>None\<close>. The operating system hands out a descriptor that is
  not in use and fits an \<open>int\<close>; a connection reads only after it has executed the commands it had.
  A connection can end at any time: the client closes it, the network fails, or another client
  kills it.
\<close>

fun system_step :: "world \<Rightarrow> (nat \<Rightarrow> bool) \<Rightarrow> event \<Rightarrow> system \<Rightarrow> system outcome option" where
  "system_step w ok (Accept fd) sys =
     (if fd < 0 \<or> 2 ^ 31 \<le> fd \<or> map_of (sys_connections sys) fd \<noteq> None then None
      else (let (ses, srv) = connect (w_steady w) fd (sys_server sys)
            in Some (Inr \<lparr>sys_server = srv,
                 sys_connections = AList.update fd \<lparr>con_session = ses, con_pending = [], con_queue = []\<rparr>
                                     (sys_connections sys)\<rparr>)))"
| "system_step w ok (Receive fd bytes) sys =
     (case map_of (sys_connections sys) fd of
        None \<Rightarrow> None
      | Some con \<Rightarrow>
          if con_queue con \<noteq> [] then None
          else Some (and_then (parseAvailable ok (con_pending con @ bytes)) (\<lambda>(cs, rest).
                 Inr (sys\<lparr>sys_connections := AList.update fd (con\<lparr>con_pending := rest, con_queue := cs\<rparr>)
                                               (sys_connections sys)\<rparr>))))"
| "system_step w ok (Execute fd) sys =
     (case map_of (sys_connections sys) fd of
        None \<Rightarrow> None
      | Some con \<Rightarrow>
          (case con_queue con of
             [] \<Rightarrow> None
           | c # cs \<Rightarrow>
               Some (and_then (handleRequest w c (con_session con) (sys_server sys)) (\<lambda>eff.
                 Inr \<lparr>sys_server = eff_server eff,
                      sys_connections =
                        (if eff_closed eff then AList.delete fd (sys_connections sys)
                         else AList.update fd (con\<lparr>con_session := eff_session eff, con_queue := cs\<rparr>)
                                (sys_connections sys))\<rparr>))))"
| "system_step w ok (HangUp fd) sys =
     (case map_of (sys_connections sys) fd of
        None \<Rightarrow> None
      | Some con \<Rightarrow>
          Some (Inr \<lparr>sys_server = disconnect fd (sys_server sys),
                    sys_connections = AList.delete fd (sys_connections sys)\<rparr>))"
| "system_step w ok ExpiryRound sys =
     Some (Inr (sys\<lparr>sys_server := (sys_server sys)\<lparr>srv_stores :=
       expiry_round (w_snapshot_envs w) 0 (srv_stores (sys_server sys))\<rparr>\<rparr>))"
| "system_step w ok SnapshotRound sys =
     (case srv_snapshot (sys_server sys) of
        None \<Rightarrow> None
      | Some file \<Rightarrow> Some (and_then (snapshot_round w file (sys_server sys)) (\<lambda>srv. Inr (sys\<lparr>sys_server := srv\<rparr>))))"

definition clocks_ok :: "world \<Rightarrow> bool" where
  "clocks_ok w \<longleftrightarrow> clock_ok (w_env w) \<and> (\<forall>j. clock_ok (w_snapshot_envs w j))"

inductive reachable :: "(nat \<Rightarrow> bool) \<Rightarrow> system \<Rightarrow> system \<Rightarrow> bool" for ok where
  start: "reachable ok sys sys"
| step: "reachable ok sys sys' \<Longrightarrow> clocks_ok w \<Longrightarrow> system_step w ok ev sys' = Some (Inr sys'') \<Longrightarrow> reachable ok sys sys''"

inductive_cases reachableE: "reachable ok sys sys'"

section \<open>What a command does to the registers of clients\<close>

text \<open>
  A command on connection \<open>fd\<close> changes neither the number of connected clients nor the set of
  registered descriptors, keeps the counters consistent, and gives subscriptions to \<open>fd\<close> only.
\<close>

definition tame :: "int \<Rightarrow> TcpServer \<Rightarrow> TcpServer \<Rightarrow> bool" where
  "tame fd srv srv' \<longleftrightarrow>
     connectedClients (srv_metrics srv') = connectedClients (srv_metrics srv) \<and>
     (metrics_inv (srv_metrics srv) \<longrightarrow> metrics_inv (srv_metrics srv')) \<and>
     fst ` set (srv_clients srv') = fst ` set (srv_clients srv) \<and>
     (pubsub_inv (srv_pubsub srv) \<longrightarrow> pubsub_inv (srv_pubsub srv') \<and>
        fst ` subscribed (srv_pubsub srv') \<subseteq> insert fd (fst ` subscribed (srv_pubsub srv)))"

lemma tame_refl [simp]: "tame fd srv srv"
  by (auto simp: tame_def)

lemma tame_trans:
  assumes "tame fd srv1 srv2" "tame fd srv2 srv3"
  shows "tame fd srv1 srv3"
proof -
  have "A3 \<subseteq> insert fd A1" if "A3 \<subseteq> insert fd A2" "A2 \<subseteq> insert fd A1" for A1 A2 A3 :: "int set" using that by blast
  then show ?thesis using assms unfolding tame_def by (metis (no_types, lifting))
qed

lemma tame_data [simp]:
  "tame fd srv (srv'\<lparr>srv_stores := st\<rparr>) = tame fd srv srv'" "tame fd srv (srv'\<lparr>srv_aof := a\<rparr>) = tame fd srv srv'"
  "tame fd srv (srv'\<lparr>srv_snapshot := f\<rparr>) = tame fd srv srv'" "tame fd srv (srv'\<lparr>srv_readOnly := b\<rparr>) = tame fd srv srv'"
  by (simp_all add: tame_def)

lemma tame_metrics:
  assumes "ev \<noteq> Connected" "ev \<noteq> Disconnected"
  shows "tame fd srv (srv\<lparr>srv_metrics := metrics_step ev (srv_metrics srv)\<rparr>)"
proof -
  have "connectedClients (metrics_step ev m) = connectedClients m" for m
    using assms by (cases ev) (simp_all add: commandExecuted_def commandRejected_def snapshotSaved_def Let_def)
  then show ?thesis using metrics_step_inv [of "srv_metrics srv" ev] assms by (auto simp: tame_def)
qed

lemmas tame_counters =
  tame_metrics [of "Executed c" for c, simplified] tame_metrics [of Rejected, simplified]
  tame_metrics [of "SnapshotSaved t" for t, simplified]

lemma tame_client_update: "map_of (srv_clients srv) fd' \<noteq> None \<Longrightarrow> tame fd srv (srv\<lparr>srv_clients := AList.update fd' x (srv_clients srv)\<rparr>)"
  by (force simp: tame_def set_keys_update dest: map_of_SomeD)

lemma tame_count_rejected [simp]: "tame fd srv (count_rejected t srv)" "tame fd srv (reject srv)"
  by (simp_all add: count_rejected_def reject_def tame_counters)

lemma tame_note_client [simp]: "tame fd srv (note_client c ses srv)"
  by (simp add: note_client_def updateClientState_def tame_client_update split: option.split)

lemma tame_then [simp]:
  assumes "tame fd srv srv'"
  shows "tame fd srv (count_rejected t srv')" "tame fd srv (reject srv')" "tame fd srv (note_client c ses srv')"
  by (rule tame_trans [OF assms], simp)+

lemma tame_noted [simp]: "tame fd srv (noted c ses srv)"
  unfolding noted_def using tame_counters(1) tame_note_client by (rule tame_trans)

lemma tame_pubsub:
  assumes "pubsub_inv (srv_pubsub srv) \<Longrightarrow> pubsub_inv ps \<and> fst ` subscribed ps \<subseteq> insert fd (fst ` subscribed (srv_pubsub srv))"
  shows "tame fd srv (srv\<lparr>srv_pubsub := ps\<rparr>)"
  using assms by (simp add: tame_def)

lemma tame_saveSnapshot:
  assumes "saveSnapshot w f srv = Inr (saved, srv')"
  shows "tame fd srv srv'"
  using assms
proof (cases rule: saveSnapshot_cases)
  case (1 saved' f' aof')
  show ?thesis by (subst 1(2)) simp
qed

lemma handlers_tame:
  "handleReadOnlyCommand ts srv = Some (t, srv') \<Longrightarrow> tame fd srv srv'"
  "handleClientCommand w fd' ts srv = Some (t, srv'', k) \<Longrightarrow> tame fd srv srv''"
proof -
  show "handleReadOnlyCommand ts srv = Some (t, srv') \<Longrightarrow> tame fd srv srv'"
    by (auto simp: handleReadOnlyCommand_def split: if_splits)
  show "handleClientCommand w fd' ts srv = Some (t, srv'', k) \<Longrightarrow> tame fd srv srv''"
    by (auto simp: handleClientCommand_def Let_def tame_client_update split: if_splits option.splits)
qed

lemma handlePersistence_tame:
  assumes h: "handlePersistenceCommand w ts srv = Some (Inr (t, srv'))"
  shows "tame fd srv srv'"
proof (cases "srv' = srv")
  case False
  then obtain f saved srv1 where s: "saveSnapshot w f srv = Inr (saved, srv1)"
      and srv': "srv' = srv1 \<or> srv' = srv1\<lparr>srv_metrics := snapshotSaved (w_unixSeconds w) (srv_metrics srv1)\<rparr>"
    using h by (auto simp: handlePersistenceCommand_def split: if_splits option.splits)
  then show ?thesis using tame_saveSnapshot [OF s] tame_trans [OF _ tame_counters(3)] by blast
qed simp

lemma subscribe_tame:
  "tame fd srv (srv\<lparr>srv_pubsub := snd (subscribe fd proto cs (srv_pubsub srv))\<rparr>)"
  by (rule tame_pubsub) (use subscribe_inv [of "srv_pubsub srv" fd proto cs] in auto)

lemma unsubscribe_tame:
  "tame fd srv (srv\<lparr>srv_pubsub := snd (unsubscribe order fd' proto cs (srv_pubsub srv))\<rparr>)"
  by (rule tame_pubsub) (use unsubscribe_inv [of "srv_pubsub srv" order fd' proto cs] in auto)

lemma publish_tame:
  "tame fd srv (srv\<lparr>srv_pubsub := snd (snd (publish order up proto c message (srv_pubsub srv)))\<rparr>)"
proof (rule tame_pubsub)
  obtain sent t ps where p: "publish order up proto c message (srv_pubsub srv) = (sent, t, ps)" by (metis prod_cases3)
  assume "pubsub_inv (srv_pubsub srv)"
  from publish_spec(3,4) [OF this p] p
  show "pubsub_inv (snd (snd (publish order up proto c message (srv_pubsub srv)))) \<and>
      fst ` subscribed (snd (snd (publish order up proto c message (srv_pubsub srv)))) \<subseteq> insert fd (fst ` subscribed (srv_pubsub srv))"
    by auto
qed

lemma handlePubSub_tame:
  assumes "handlePubSubCommand w fd proto ts srv = Some (sent, t, srv')"
  shows "tame fd srv srv'"
  using assms
  by (auto simp: handlePubSubCommand_def Let_def case_prod_unfold subscribe_tame unsubscribe_tame publish_tame split: if_splits)

text \<open>How a command leaves the server: tamely, and disconnected if it ended the connection.\<close>

definition served :: "int \<Rightarrow> TcpServer \<Rightarrow> effect \<Rightarrow> bool" where
  "served fd srv eff \<longleftrightarrow>
     (\<exists>srv1. tame fd srv srv1 \<and> eff_server eff = (if eff_closed eff then disconnect fd srv1 else srv1))"

lemma served_respond:
  "tame fd srv srv' \<Longrightarrow> served fd srv (respond c ses t srv')"
  "tame fd srv srv' \<Longrightarrow> served fd srv ((respond c ses t srv')\<lparr>eff_killed := k\<rparr>)"
  "tame fd srv srv' \<Longrightarrow> served fd srv ((respond c ses t srv')\<lparr>eff_server := note_client c' ses' (eff_server (respond c ses t srv'))\<rparr>)"
  by (auto simp: served_def intro: tame_trans)

lemma served_effect_of: "tame fd srv srv' \<Longrightarrow> served fd srv (effect_of sent ses srv')"
  by (simp add: served_def)

lemma served_from: "tame fd srv srv' \<Longrightarrow> served fd srv' eff \<Longrightarrow> served fd srv eff"
  unfolding served_def using tame_trans by blast

lemma run_data_command_served:
  assumes "run_data_command w c ses srv = Inr eff"
  shows "served (ses_fd ses) srv eff"
proof -
  obtain t st a where "eff = respond c ses t (srv\<lparr>srv_stores := st, srv_aof := a\<rparr>) \<or>
      eff = (respond c ses t (srv\<lparr>srv_stores := st, srv_aof := a\<rparr>))\<lparr>eff_server := disconnect (ses_fd ses)
        (count_rejected t (srv\<lparr>srv_stores := st, srv_aof := a\<rparr>)), eff_closed := True\<rparr>"
    using assms by (fastforce simp: run_data_command_def Let_def split: if_splits)
  then show ?thesis
  proof
    assume "eff = respond c ses t (srv\<lparr>srv_stores := st, srv_aof := a\<rparr>)"
    then show ?thesis by (simp add: served_respond(1))
  next
    assume "eff = (respond c ses t (srv\<lparr>srv_stores := st, srv_aof := a\<rparr>))\<lparr>eff_server := disconnect (ses_fd ses)
        (count_rejected t (srv\<lparr>srv_stores := st, srv_aof := a\<rparr>)), eff_closed := True\<rparr>"
    then show ?thesis
      unfolding served_def by (intro exI [of _ "count_rejected t (srv\<lparr>srv_stores := st, srv_aof := a\<rparr>)"]) simp
  qed
qed

lemma handleData_served:
  assumes "handleData w c ses srv = Inr eff"
  shows "served (ses_fd ses) srv eff"
proof (cases "run_data_command w c ses srv = Inr eff")
  case True
  then show ?thesis by (rule run_data_command_served)
next
  case False
  then consider t where "eff = effect_of [(ses_fd ses, t)] ses (reject srv)"
    | sent out t srv' where "handlePubSubCommand w (ses_fd ses) (protocol c) (tokens c) srv = Some (sent, t, srv')"
        "eff = effect_of out ses (count_rejected t srv')"
    using assms by (auto simp: handleData_def split: if_splits option.splits prod.splits)
  then show ?thesis
  proof cases
    case 1
    then show ?thesis by (simp add: served_effect_of)
  next
    case 2
    then show ?thesis using tame_trans [OF handlePubSub_tame tame_count_rejected(1)] by (simp add: served_effect_of)
  qed
qed

lemma handleCommand_served:
  assumes "handleCommand w c ses srv = Inr eff"
  shows "served (ses_fd ses) srv eff"
proof (rule served_from [OF tame_noted])
  let ?srv = "noted c ses srv" and ?fd = "ses_fd ses"
  consider (auth) t ses' where "eff = (let eff = respond c ses' t ?srv in eff\<lparr>eff_server := note_client c ses' (eff_server eff)\<rparr>)"
    | (no) out where "eff = effect_of out ses (reject ?srv)"
    | (ok) "handleAuthenticated w c ses ?srv = Inr eff"
    using assms unfolding handleCommand_unfold Let_def by (auto split: option.splits if_splits)
  then show "served ?fd ?srv eff"
  proof cases
    case auth
    then show ?thesis using served_respond(3) [OF tame_refl] by (simp add: Let_def)
  next
    case no
    then show ?thesis by (simp add: served_effect_of)
  next
    case ok
    then show ?thesis
    proof (cases rule: handleAuthenticated_handler)
      case sel
      then show ?thesis using served_respond(3) [OF tame_refl] by (simp add: Let_def)
    next
      case dat
      then show ?thesis by (rule handleData_served)
    qed (simp_all add: served_respond handlers_tame handlePersistence_tame)
  qed
qed

section \<open>The invariant of the system\<close>

text \<open>
  The server's registers agree with the set of open connections: the counter of connected clients, the
  table of clients, and the subscriptions, which belong to open connections only.
\<close>

definition registers :: "TcpServer \<Rightarrow> int set \<Rightarrow> bool" where
  "registers srv fds \<longleftrightarrow> metrics_inv (srv_metrics srv) \<and>
     connectedClients (srv_metrics srv) = of_nat (card fds) \<and>
     fst ` set (srv_clients srv) = fds \<and> fst ` subscribed (srv_pubsub srv) \<subseteq> fds"

definition connections_ok :: "nat \<Rightarrow> (int \<times> connection) list \<Rightarrow> bool" where
  "connections_ok n conns \<longleftrightarrow> distinct_keys conns \<and>
     (\<forall>(fd, con)\<in>set conns. 0 \<le> fd \<and> fd < 2 ^ 31 \<and> ses_fd (con_session con) = fd \<and> databaseIndex (con_session con) < n)"

definition system_inv :: "system \<Rightarrow> bool" where
  "system_inv sys \<longleftrightarrow> server_inv (sys_server sys) \<and>
     registers (sys_server sys) (fst ` set (sys_connections sys)) \<and>
     connections_ok (length (srv_stores (sys_server sys))) (sys_connections sys)"

lemma registers_finite: "registers srv fds \<Longrightarrow> finite fds"
  by (auto simp: registers_def)

lemma registers_tame:
  assumes "registers srv fds" "fd \<in> fds" "pubsub_inv (srv_pubsub srv)" "tame fd srv srv'"
  shows "registers srv' fds"
proof -
  have "A' \<subseteq> fds" if "A' \<subseteq> insert fd A" "A \<subseteq> fds" for A A' using that assms(2) by blast
  then show ?thesis using assms unfolding registers_def tame_def by metis
qed

lemma registers_connect:
  assumes "registers srv fds" "fd \<notin> fds"
  shows "registers (snd (connect t fd srv)) (insert fd fds)"
proof -
  have "metrics_inv (clientConnected (srv_metrics srv))"
    using metrics_step_inv [of "srv_metrics srv" Connected] assms(1) by (simp add: registers_def)
  moreover have "connectedClients (clientConnected m) = connectedClients m + 1" for m
    by (simp add: clientConnected_def Let_def)
  moreover have "srv_pubsub (registerClient t fd b srv') = srv_pubsub srv'" "srv_metrics (registerClient t fd b srv') = srv_metrics srv'"
      "fst ` set (srv_clients (registerClient t fd b srv')) = insert fd (fst ` set (srv_clients srv'))" for b srv'
    by (simp_all add: registerClient_def Let_def set_keys_update)
  ultimately show ?thesis
    using assms registers_finite [OF assms(1)] by (auto simp: registers_def connect_def)
qed

lemma registers_disconnect:
  assumes "registers srv fds" "fd \<in> fds" "fds \<subseteq> {0..<2 ^ 31}" "pubsub_inv (srv_pubsub srv)"
  shows "registers (disconnect fd srv) (fds - {fd})"
proof -
  have fin: "finite fds" by (rule registers_finite [OF assms(1)])
  have "card fds \<le> card {0..<2 ^ 31 :: int}" using assms(3) by (rule card_mono [OF finite_atLeastLessThan_int])
  then have small: "card fds < 2 ^ 64" by simp
  have pos: "0 < card fds" using fin assms(2) by (auto simp: card_gt_0_iff)
  have "(of_nat (card fds) :: 64 word) \<noteq> 0"
    using small pos by (auto simp: word_of_nat_eq_0_iff dest: nat_dvd_not_less)
  then have "metrics_inv (clientDisconnected (srv_metrics srv))"
    using metrics_step_inv [of "srv_metrics srv" Disconnected] assms(1) by (simp add: registers_def)
  moreover have "connectedClients (clientDisconnected (srv_metrics srv)) = of_nat (card (fds - {fd}))"
  proof -
    have "card fds = Suc (card (fds - {fd}))" using card.remove [OF fin assms(2)] .
    then show ?thesis using assms(1) by (simp add: clientDisconnected_def registers_def)
  qed
  moreover have "fst ` subscribed (removeClientSubscriptions fd (srv_pubsub srv)) \<subseteq> fds - {fd}"
    using removeClientSubscriptions_inv(2) [OF assms(4)] assms(1) by (auto simp: registers_def)
  moreover have "fst ` set (AList.delete fd (srv_clients srv)) = fds - {fd}"
    using assms(1) by (simp add: registers_def set_keys_delete)
  ultimately show ?thesis by (simp add: registers_def disconnect_def unregisterClient_def Let_def)
qed

lemma connections_ok_range: "connections_ok n conns \<Longrightarrow> fst ` set conns \<subseteq> {0..<2 ^ 31}"
  by (fastforce simp: connections_ok_def)

lemma connections_ok_at:
  "connections_ok n conns \<Longrightarrow> map_of conns fd = Some con \<Longrightarrow>
     fd \<in> fst ` set conns \<and> 0 \<le> fd \<and> fd < 2 ^ 31 \<and> ses_fd (con_session con) = fd \<and> databaseIndex (con_session con) < n"
  by (force simp: connections_ok_def dest: map_of_SomeD)

lemma connections_ok_update:
  assumes "connections_ok n conns" "0 \<le> fd" "fd < 2 ^ 31" "ses_fd (con_session con) = fd" "databaseIndex (con_session con) < n"
  shows "connections_ok n (AList.update fd con conns)"
proof -
  have d: "distinct_keys conns" "distinct_keys (AList.update fd con conns)"
    using assms(1) by (simp_all add: connections_ok_def amap.invar_insert)
  have "(fd', con') \<in> set conns \<or> fd' = fd \<and> con' = con" if "(fd', con') \<in> set (AList.update fd con conns)" for fd' con'
  proof -
    have "map_of (AList.update fd con conns) fd' = Some con'" using that d(2) by simp
    then show ?thesis by (auto simp: amap.find_insert split: if_splits dest: map_of_SomeD)
  qed
  then show ?thesis using assms d(2) by (fastforce simp: connections_ok_def)
qed

lemma connections_ok_delete: "connections_ok n conns \<Longrightarrow> connections_ok n (AList.delete fd conns)"
  using amap.invar_erase [of conns fd] by (auto simp: connections_ok_def AList.delete_eq)

lemma expiry_round_shape:
  "\<forall>s\<in>set ss. wf_store s \<Longrightarrow> length (expiry_round es i ss) = length ss \<and> (\<forall>s\<in>set (expiry_round es i ss). wf_store s)"
  by (induction es i ss rule: expiry_round.induct) (auto simp: wf_removeExpired)

lemma handleRequest_served:
  assumes "handleRequest w c ses srv = Inr eff"
  shows "served (ses_fd ses) srv eff \<and> ses_fd (eff_session eff) = ses_fd ses"
proof -
  let ?greet = "\<not> greetingSent ses \<and> protocol c = Inline"
  define ses' where "ses' = (if ?greet then ses\<lparr>greetingSent := True\<rparr> else ses)"
  have fd: "ses_fd ses' = ses_fd ses" by (simp add: ses'_def)
  define hello where "hello = (if ?greet then [(ses_fd ses, greeting)] else [])"
  have eq: "handleRequest w c ses srv =
      (if ?greet \<and> \<not> w_reachable w (ses_fd ses)
       then Inr (effect_of hello ses (disconnect (ses_fd ses) srv)\<lparr>eff_closed := True\<rparr>)
       else if tokens c = [] then Inr (effect_of hello ses' srv)
       else and_then (handleCommand w c ses' srv) (\<lambda>eff. Inr (eff\<lparr>eff_sent := hello @ eff_sent eff\<rparr>)))"
    by (simp add: handleRequest_def Let_def ses'_def hello_def)
  consider (lost) out where "eff = effect_of out ses (disconnect (ses_fd ses) srv)\<lparr>eff_closed := True\<rparr>"
    | (idle) out where "eff = effect_of out ses' srv"
    | (command) out eff' where "handleCommand w c ses' srv = Inr eff'" "eff = eff'\<lparr>eff_sent := out\<rparr>"
    using assms unfolding eq by (auto split: if_splits)
  then show ?thesis
  proof cases
    case lost
    then show ?thesis unfolding served_def by (auto intro!: exI [of _ srv])
  next
    case idle
    then show ?thesis by (simp add: served_effect_of fd)
  next
    case command
    have "served (ses_fd ses) srv eff'" using handleCommand_served [OF command(1)] by (simp add: fd)
    moreover have "ses_fd (eff_session eff') = ses_fd ses"
      using handleCommand_others [OF command(1)] by (simp add: others_ok_def fd)
    ultimately show ?thesis using command(2) by (simp add: served_def)
  qed
qed

lemma execute_inv:
  assumes inv: "system_inv sys" and con: "map_of (sys_connections sys) fd = Some con"
    and h: "handleRequest w c (con_session con) (sys_server sys) = Inr eff" and w: "clock_ok (w_env w)"
  shows "system_inv \<lparr>sys_server = eff_server eff, sys_connections =
      (if eff_closed eff then AList.delete fd (sys_connections sys)
       else AList.update fd (con\<lparr>con_session := eff_session eff, con_queue := cs\<rparr>) (sys_connections sys))\<rparr>"
proof -
  let ?srv = "sys_server sys" and ?conns = "sys_connections sys"
  have si: "server_inv ?srv" "registers ?srv (fst ` set ?conns)" "connections_ok (length (srv_stores ?srv)) ?conns"
    using inv by (simp_all add: system_inv_def)
  then have at: "fd \<in> fst ` set ?conns" "0 \<le> fd" "fd < 2 ^ 31" "ses_fd (con_session con) = fd" "session_ok (con_session con) ?srv"
    using connections_ok_at [OF si(3) con] by (simp_all add: session_ok_def)
  have kept: "server_inv (eff_server eff)" "session_ok (eff_session eff) (eff_server eff)"
      "length (srv_stores (eff_server eff)) = length (srv_stores ?srv)"
    using handleRequest_inv [OF h si(1) at(5) w] by simp_all
  obtain srv1 where s1: "tame fd ?srv srv1" "eff_server eff = (if eff_closed eff then disconnect fd srv1 else srv1)"
      and fd: "ses_fd (eff_session eff) = fd"
    using handleRequest_served [OF h] at(4) by (auto simp: served_def)
  have ps: "pubsub_inv (srv_pubsub ?srv)" using si(1) by (simp add: server_inv_def)
  have r1: "registers srv1 (fst ` set ?conns)" using registers_tame [OF si(2) at(1) ps s1(1)] .
  have ps1: "pubsub_inv (srv_pubsub srv1)" using s1(1) ps by (simp add: tame_def)
  show ?thesis
  proof (cases "eff_closed eff")
    case True
    have "registers (eff_server eff) (fst ` set (AList.delete fd ?conns))"
      using registers_disconnect [OF r1 at(1) connections_ok_range [OF si(3)] ps1] s1(2) True by (simp add: set_keys_delete)
    then show ?thesis using kept connections_ok_delete [OF si(3)] True by (simp add: system_inv_def)
  next
    case False
    have "connections_ok (length (srv_stores ?srv)) (AList.update fd (con\<lparr>con_session := eff_session eff, con_queue := cs\<rparr>) ?conns)"
      using connections_ok_update [OF si(3) at(2,3)] fd kept(2,3) by (simp add: session_ok_def)
    then show ?thesis
      using kept r1 s1(2) False at(1) by (simp add: system_inv_def set_keys_update insert_absorb)
  qed
qed

lemma accept_inv:
  assumes inv: "system_inv sys" and fd: "0 \<le> fd" "fd < 2 ^ 31" "map_of (sys_connections sys) fd = None"
  shows "system_inv \<lparr>sys_server = snd (connect t fd (sys_server sys)), sys_connections =
      AList.update fd \<lparr>con_session = fst (connect t fd (sys_server sys)), con_pending = [], con_queue = []\<rparr> (sys_connections sys)\<rparr>"
proof -
  let ?srv = "sys_server sys" and ?conns = "sys_connections sys"
  have new: "fd \<notin> fst ` set ?conns" using fd(3) by (simp add: map_of_eq_None_iff)
  have "registers (snd (connect t fd ?srv)) (insert fd (fst ` set ?conns))"
    using inv new registers_connect by (simp add: system_inv_def)
  moreover have same: "srv_stores (snd (connect t fd ?srv)) = srv_stores ?srv" "srv_pubsub (snd (connect t fd ?srv)) = srv_pubsub ?srv"
    by (simp_all add: connect_def registerClient_def Let_def)
  moreover have "connections_ok (length (srv_stores ?srv))
      (AList.update fd \<lparr>con_session = fst (connect t fd ?srv), con_pending = [], con_queue = []\<rparr> ?conns)"
    by (rule connections_ok_update) (use inv fd in \<open>auto simp: system_inv_def server_inv_def connect_def open_session_def\<close>)
  ultimately show ?thesis using inv by (simp add: system_inv_def server_inv_def set_keys_update)
qed

lemma hang_up_inv:
  assumes inv: "system_inv sys" and con: "map_of (sys_connections sys) fd = Some con"
  shows "system_inv \<lparr>sys_server = disconnect fd (sys_server sys), sys_connections = AList.delete fd (sys_connections sys)\<rparr>"
proof -
  let ?srv = "sys_server sys" and ?conns = "sys_connections sys"
  have ok: "connections_ok (length (srv_stores ?srv)) ?conns" using inv by (simp add: system_inv_def)
  have "registers (disconnect fd ?srv) (fst ` set ?conns - {fd})"
    using inv connections_ok_at [OF ok con] connections_ok_range [OF ok]
    by (intro registers_disconnect) (simp_all add: system_inv_def server_inv_def)
  then show ?thesis
    using inv server_inv_disconnect connections_ok_delete [OF ok] by (simp add: system_inv_def set_keys_delete)
qed

lemma data_round_inv:
  assumes "system_inv sys" "tame fd (sys_server sys) srv" "srv_pubsub srv = srv_pubsub (sys_server sys)"
    and "shape_kept (srv_stores (sys_server sys)) (srv_stores srv)"
  shows "system_inv (sys\<lparr>sys_server := srv\<rparr>)"
  using assms by (auto simp: system_inv_def server_inv_def registers_def tame_def shape_kept_def)

lemma snapshot_round_kept:
  assumes "snapshot_round w f srv = Inr srv'" "\<forall>s\<in>set (srv_stores srv). wf_store s"
  shows "tame fd srv srv'" "srv_pubsub srv' = srv_pubsub srv" "shape_kept (srv_stores srv) (srv_stores srv')"
    "\<forall>j. clock (w_snapshot_envs w j) 0 \<le> now \<Longrightarrow> views now (srv_stores srv') = views now (srv_stores srv)"
proof -
  obtain saved srv1 where s: "saveSnapshot w f srv = Inr (saved, srv1)"
      and srv': "srv' = srv1 \<or> srv' = srv1\<lparr>srv_metrics := snapshotSaved (w_unixSeconds w) (srv_metrics srv1)\<rparr>"
    using assms(1) by (auto simp: snapshot_round_def split: if_splits)
  show "tame fd srv srv'" using srv' tame_saveSnapshot [OF s] tame_trans [OF _ tame_counters(3)] by blast
  from s show "srv_pubsub srv' = srv_pubsub srv" "shape_kept (srv_stores srv) (srv_stores srv')"
    "\<forall>j. clock (w_snapshot_envs w j) 0 \<le> now \<Longrightarrow> views now (srv_stores srv') = views now (srv_stores srv)"
  proof (atomize (full), cases rule: saveSnapshot_cases)
    case (1 saved' f' aof')
    have "srv_pubsub srv1 = srv_pubsub srv" by (subst 1(2)) simp
    moreover have "srv_stores srv' = srv_stores srv1" "srv_pubsub srv' = srv_pubsub srv1" using srv' by auto
    ultimately show "srv_pubsub srv' = srv_pubsub srv \<and> shape_kept (srv_stores srv) (srv_stores srv') \<and>
        ((\<forall>j. clock (w_snapshot_envs w j) 0 \<le> now) \<longrightarrow> views now (srv_stores srv') = views now (srv_stores srv))"
      using save_all_shape [OF 1(1) assms(2)] by simp
  qed
qed

lemma system_step_inv:
  assumes inv: "system_inv sys" and w: "clocks_ok w" and st: "system_step w ok ev sys = Some (Inr sys')"
  shows "system_inv sys'"
proof (cases ev)
  case (Accept fd)
  then show ?thesis
    using st accept_inv [OF inv, of fd "w_steady w"] by (auto simp: case_prod_unfold Let_def split: if_splits)
next
  case (Receive fd bytes)
  then obtain con cs rest where con: "map_of (sys_connections sys) fd = Some con"
      and sys': "sys' = sys\<lparr>sys_connections := AList.update fd (con\<lparr>con_pending := rest, con_queue := cs\<rparr>) (sys_connections sys)\<rparr>"
    using st by (auto split: option.splits if_splits)
  have ok: "connections_ok (length (srv_stores (sys_server sys))) (sys_connections sys)" using inv by (simp add: system_inv_def)
  have "connections_ok (length (srv_stores (sys_server sys)))
      (AList.update fd (con\<lparr>con_pending := rest, con_queue := cs\<rparr>) (sys_connections sys))"
    by (rule connections_ok_update [OF ok]) (use connections_ok_at [OF ok con] in simp_all)
  then show ?thesis
    using inv connections_ok_at [OF ok con] by (simp add: system_inv_def sys' set_keys_update insert_absorb)
next
  case (Execute fd)
  then show ?thesis
    using st execute_inv [OF inv] w by (auto simp: clocks_ok_def split: option.splits list.splits)
next
  case (HangUp fd)
  then show ?thesis using st hang_up_inv [OF inv] by (auto split: option.splits)
next
  case ExpiryRound
  let ?ss = "srv_stores (sys_server sys)"
  have "shape_kept ?ss (expiry_round (w_snapshot_envs w) 0 ?ss)"
    using inv expiry_round_shape [of ?ss] by (simp add: shape_kept_def system_inv_def server_inv_def)
  then show ?thesis using ExpiryRound st data_round_inv [OF inv, of 0 "(sys_server sys)\<lparr>srv_stores := expiry_round (w_snapshot_envs w) 0 ?ss\<rparr>"] by simp
next
  case SnapshotRound
  then obtain f srv where r: "snapshot_round w f (sys_server sys) = Inr srv" and sys': "sys' = sys\<lparr>sys_server := srv\<rparr>"
    using st by (auto split: option.splits)
  have "\<forall>s\<in>set (srv_stores (sys_server sys)). wf_store s" using inv by (simp add: system_inv_def server_inv_def)
  from data_round_inv [OF inv snapshot_round_kept(1-3) [OF r this]] show ?thesis by (simp add: sys')
qed

lemma expiry_round_views:
  "\<forall>s\<in>set ss. wf_store s \<Longrightarrow> \<forall>j. clock (es j) 0 \<le> now \<Longrightarrow> views now (expiry_round es i ss) = views now ss"
proof (induction es i ss rule: expiry_round.induct)
  case (2 es i s ss)
  have "view (clock (es i) 0) (snd (ds_removeExpired (es i) s)) = view (clock (es i) 0) s"
    using "2.prems"(1) by (simp add: view_removeExpired)
  then have "view now (snd (ds_removeExpired (es i) s)) = view now s" using "2.prems"(2) view_eq_later by blast
  then show ?case using 2 by simp
qed simp

lemma reachable_inv: "reachable ok sys sys' \<Longrightarrow> system_inv sys \<Longrightarrow> system_inv sys'"
  by (induction rule: reachable.induct) (simp_all add: system_step_inv)

section \<open>Properties\<close>


definition idle_system :: system where
  "idle_system = \<lparr>sys_server = sample_server, sys_connections = []\<rparr>"

lemma idle_system_inv: "system_inv idle_system"
proof -
  have "subscribed no_subscriptions = {}" by (simp add: subscribed_def channels_of_def no_subscriptions_def)
  then show ?thesis
    using sample_ok(1) metrics_inv_initial
    by (simp add: system_inv_def idle_system_def registers_def connections_ok_def sample_server_def initial_metrics_def)
qed


text \<open>
  C33: the background workers are invisible to clients: a round of the expiry worker or of the
  snapshot worker leaves every live key, value and deadline of every database in place.
\<close>

theorem workers_keep_data:
  assumes "ev = ExpiryRound \<or> ev = SnapshotRound" "system_step w ok ev sys = Some (Inr sys')"
    and "\<forall>s\<in>set (srv_stores (sys_server sys)). wf_store s" "\<forall>j. clock (w_snapshot_envs w j) 0 \<le> now"
  shows "views now (srv_stores (sys_server sys')) = views now (srv_stores (sys_server sys)) \<and>
    sys_connections sys' = sys_connections sys"
  using assms expiry_round_views [OF assms(3,4)] snapshot_round_kept(4) [OF _ assms(3,4)]
  by (auto split: option.splits)

theorem workers_keep_data_witness:
  "\<exists>sys'. system_step sample_world (\<lambda>n. n < 100) SnapshotRound idle_system = Some (Inr sys') \<and>
     views 2000 (srv_stores (sys_server sys')) = views 2000 [one_list, empty_store]"
proof -
  have "case system_step sample_world (\<lambda>n. n < 100) SnapshotRound idle_system of Some (Inr x) \<Rightarrow> True | _ \<Rightarrow> False" by code_simp
  then obtain sys' where s: "system_step sample_world (\<lambda>n. n < 100) SnapshotRound idle_system = Some (Inr sys')"
    by (auto split: option.splits sum.splits)
  have "\<forall>s\<in>set (srv_stores (sys_server idle_system)). wf_store s" "\<forall>j. clock (w_snapshot_envs sample_world j) 0 \<le> 2000"
    using sample_ok(1) by (simp_all add: idle_system_def server_inv_def sample_world_def frozen_def)
  from workers_keep_data [OF _ s this] s show ?thesis by (auto simp: idle_system_def sample_server_def)
qed

end
