(* ===== verification/ServerConfig.thy ===== *)
theory ServerConfig
  imports StoreCore
begin

text \<open>
  The configuration of \<open>src/swiftcache/src/main.cpp\<close>: option values, the configuration file and the
  command line. A configuration is built by overwriting the defaults first from the file and then from
  the arguments. The two default paths are macros the build can set, so they are arguments.
  A failure is the text the program prints before it exits.
\<close>

record ServerConfig =
  host :: string
  port :: nat
  aofPath :: string
  snapshotPath :: string
  aofEnabled :: bool
  snapshotEnabled :: bool
  readOnly :: bool
  authPassword :: string
  databaseCount :: nat
  eviction :: EvictionConfig

definition default_config :: "string \<Rightarrow> string \<Rightarrow> ServerConfig" where
  "default_config aof snapshot =
     \<lparr>host = ''localhost'', port = 6379, aofPath = aof, snapshotPath = snapshot, aofEnabled = True,
      snapshotEnabled = True, readOnly = False, authPassword = [], databaseCount = 16,
      eviction = default_eviction\<rparr>"

section \<open>Option values\<close>

definition trim :: "string \<Rightarrow> string" where
  "trim value = rev (dropWhile isspace (rev (dropWhile isspace value)))"

definition parseBool :: "string \<Rightarrow> bool option" where
  "parseBool raw =
     (let value = toLower (trim raw) in
      if value \<in> set [''1'', ''true'', ''yes'', ''on''] then Some True
      else if value \<in> set [''0'', ''false'', ''no'', ''off''] then Some False
      else None)"

text \<open>\<open>unsigned long\<close> has 64 bits, so \<open>stoul\<close> is \<open>stoull\<close>.\<close>

definition parsePort :: "string \<Rightarrow> nat option" where
  "parsePort raw =
     (case stoull raw of
        None \<Rightarrow> None
      | Some (parsed, consumed) \<Rightarrow>
          if consumed \<noteq> length raw \<or> parsed = 0 \<or> parsed > 65535 then None else Some parsed)"

definition parseSize :: "string \<Rightarrow> nat option" where
  "parseSize raw =
     (case stoull raw of
        None \<Rightarrow> None
      | Some (parsed, consumed) \<Rightarrow> if consumed \<noteq> length raw then None else Some parsed)"

definition parseEvictionPolicy :: "string \<Rightarrow> EvictionPolicy option" where
  "parseEvictionPolicy raw =
     (let value = toLower (trim raw) in
      if value = ''none'' \<or> value = ''noeviction'' then Some PolicyNone
      else if value = ''allkeys-lru'' then Some AllKeysLru
      else if value = ''volatile-lru'' then Some VolatileLru
      else if value = ''ttl-priority'' then Some TtlPriority
      else if value = ''random'' then Some RandomPolicy
      else None)"

text \<open>
  Setters shared by the file and the command line: the parsed value or the text of the error. The
  number of databases must not be zero.
\<close>

fun parsed_or :: "string \<Rightarrow> 'a option \<Rightarrow> ('a \<Rightarrow> ServerConfig) \<Rightarrow> string + ServerConfig" where
  "parsed_or error None f = Inl error"
| "parsed_or error (Some x) f = Inr (f x)"

definition parseCount :: "string \<Rightarrow> nat option" where
  "parseCount raw = (case parseSize raw of Some n \<Rightarrow> if n = 0 then None else Some n | None \<Rightarrow> None)"

section \<open>The configuration file\<close>

definition applyConfigOption :: "string \<Rightarrow> string \<Rightarrow> ServerConfig \<Rightarrow> string + ServerConfig" where
  "applyConfigOption key value config =
     (let k = toLower (trim key); v = trim value in
      if k = ''host'' then Inr (config\<lparr>host := v\<rparr>)
      else if k = ''port'' then
        parsed_or (''invalid port: '' @ v) (parsePort v) (\<lambda>p. config\<lparr>port := p\<rparr>)
      else if k = ''aof'' then Inr (config\<lparr>aofPath := v\<rparr>)
      else if k = ''snapshot'' then Inr (config\<lparr>snapshotPath := v\<rparr>)
      else if k = ''requirepass'' \<or> k = ''password'' then Inr (config\<lparr>authPassword := v\<rparr>)
      else if k = ''readonly'' \<or> k = ''read_only'' then
        parsed_or (''invalid boolean for '' @ k @ '': '' @ v) (parseBool v) (\<lambda>b. config\<lparr>readOnly := b\<rparr>)
      else if k = ''aof_enabled'' \<or> k = ''appendonly'' then
        parsed_or (''invalid boolean for '' @ k @ '': '' @ v) (parseBool v) (\<lambda>b. config\<lparr>aofEnabled := b\<rparr>)
      else if k = ''snapshot_enabled'' then
        parsed_or (''invalid boolean for snapshot_enabled: '' @ v) (parseBool v) (\<lambda>b. config\<lparr>snapshotEnabled := b\<rparr>)
      else if k = ''databases'' then
        parsed_or (''invalid databases: '' @ v) (parseCount v) (\<lambda>n. config\<lparr>databaseCount := n\<rparr>)
      else if k = ''max_keys'' then
        parsed_or (''invalid max_keys: '' @ v) (parseSize v) (\<lambda>n. config\<lparr>eviction := (eviction config)\<lparr>maxKeys := n\<rparr>\<rparr>)
      else if k = ''max_memory'' then
        parsed_or (''invalid max_memory: '' @ v) (parseSize v) (\<lambda>n. config\<lparr>eviction := (eviction config)\<lparr>maxMemoryBytes := n\<rparr>\<rparr>)
      else if k = ''eviction_policy'' then
        parsed_or (''invalid eviction_policy: '' @ v) (parseEvictionPolicy v) (\<lambda>p. config\<lparr>eviction := (eviction config)\<lparr>policy := p\<rparr>\<rparr>)
      else Inl (''unknown config option: '' @ k))"

text \<open>One line: the comment is cut off, blanks are trimmed, an empty line is skipped.\<close>

definition config_line :: "string \<Rightarrow> ServerConfig \<Rightarrow> string + ServerConfig" where
  "config_line raw config =
     (let line = trim (takeWhile (\<lambda>c. c \<noteq> CHR ''#'') raw) in
      if line = [] then Inr config
      else if CHR ''='' \<notin> set line then Inl ''expected key=value''
      else applyConfigOption (takeWhile (\<lambda>c. c \<noteq> CHR ''='') line) (tl (dropWhile (\<lambda>c. c \<noteq> CHR ''='') line)) config)"

function loadLines :: "string \<Rightarrow> nat \<Rightarrow> string \<Rightarrow> ServerConfig \<Rightarrow> string + ServerConfig" where
  "loadLines path n input config =
     (case getline input of
        None \<Rightarrow> Inr config
      | Some (line, rest) \<Rightarrow>
          (case config_line line config of
             Inl error \<Rightarrow> Inl (path @ '':'' @ show_nat (Suc n) @ '': '' @ error)
           | Inr config' \<Rightarrow> loadLines path (Suc n) rest config'))"
  by pat_completeness auto
termination
  by (relation "measure (\<lambda>(path, n, input, config). length input)") (auto dest: getline_length)

declare loadLines.simps [simp del]

text \<open>The content of the file, or \<open>None\<close> when it cannot be opened.\<close>

definition loadConfigFile :: "string \<Rightarrow> string option \<Rightarrow> ServerConfig \<Rightarrow> string + ServerConfig" where
  "loadConfigFile path file config =
     (case file of
        None \<Rightarrow> Inl (''SwiftCache failed to open config file: '' @ path)
      | Some content \<Rightarrow> loadLines path 0 content config)"

section \<open>The command line\<close>

definition optionValue :: "string \<Rightarrow> string \<Rightarrow> string" where
  "optionValue arg prefix =
     (if starts_with arg (prefix @ ''='') then drop (length prefix + 1) arg else [])"

fun findConfigPath :: "string list \<Rightarrow> string" where
  "findConfigPath [] = []"
| "findConfigPath (arg # rest) =
     (if optionValue arg ''--config'' \<noteq> [] then optionValue arg ''--config''
      else if arg = ''--config'' \<and> rest \<noteq> [] then hd rest
      else findConfigPath rest)"

text \<open>The lambda \<open>readValue\<close>: the value of an option and the arguments after it.\<close>

definition readValue :: "string \<Rightarrow> string \<Rightarrow> string list \<Rightarrow> (string \<times> string list) option" where
  "readValue name arg rest =
     (if optionValue arg name \<noteq> [] then Some (optionValue arg name, rest)
      else if arg = name \<and> rest \<noteq> [] then Some (hd rest, tl rest)
      else None)"

text \<open>The options with a value, in the order the program tries them.\<close>

definition value_options :: "(string \<times> (string \<Rightarrow> ServerConfig \<Rightarrow> string + ServerConfig)) list" where
  "value_options =
     [(''--host'', \<lambda>v config. Inr (config\<lparr>host := v\<rparr>)),
      (''--port'', \<lambda>v config. parsed_or (''invalid --port value: '' @ v) (parsePort v) (\<lambda>p. config\<lparr>port := p\<rparr>)),
      (''--aof'', \<lambda>v config. Inr (config\<lparr>aofPath := v\<rparr>)),
      (''--snapshot'', \<lambda>v config. Inr (config\<lparr>snapshotPath := v\<rparr>)),
      (''--config'', \<lambda>v config. Inr config),
      (''--requirepass'', \<lambda>v config. Inr (config\<lparr>authPassword := v\<rparr>)),
      (''--databases'', \<lambda>v config. parsed_or (''invalid --databases value: '' @ v) (parseCount v)
         (\<lambda>n. config\<lparr>databaseCount := n\<rparr>)),
      (''--max-keys'', \<lambda>v config. parsed_or (''invalid --max-keys value: '' @ v) (parseSize v)
         (\<lambda>n. config\<lparr>eviction := (eviction config)\<lparr>maxKeys := n\<rparr>\<rparr>)),
      (''--max-memory'', \<lambda>v config. parsed_or (''invalid --max-memory value: '' @ v) (parseSize v)
         (\<lambda>n. config\<lparr>eviction := (eviction config)\<lparr>maxMemoryBytes := n\<rparr>\<rparr>)),
      (''--eviction-policy'', \<lambda>v config. parsed_or (''invalid --eviction-policy value: '' @ v) (parseEvictionPolicy v)
         (\<lambda>p. config\<lparr>eviction := (eviction config)\<lparr>policy := p\<rparr>\<rparr>))]"

fun value_option :: "(string \<times> (string \<Rightarrow> ServerConfig \<Rightarrow> string + ServerConfig)) list \<Rightarrow> string \<Rightarrow> string list
    \<Rightarrow> ServerConfig \<Rightarrow> (string + ServerConfig \<times> string list) option" where
  "value_option [] arg rest config = None"
| "value_option ((name, f) # opts) arg rest config =
     (case readValue name arg rest of
        None \<Rightarrow> value_option opts arg rest config
      | Some (v, rest') \<Rightarrow>
          Some (case f v config of Inl error \<Rightarrow> Inl error | Inr config' \<Rightarrow> Inr (config', rest')))"

datatype cli_result = CliError string | CliExit | CliRun ServerConfig

text \<open>One round of the loop: the end of the program, or the configuration and the arguments left.\<close>

definition cli_option :: "string \<Rightarrow> string list \<Rightarrow> ServerConfig \<Rightarrow> cli_result + ServerConfig \<times> string list" where
  "cli_option arg rest config =
     (case value_option value_options arg rest config of
        Some (Inl error) \<Rightarrow> Inl (CliError error)
      | Some (Inr (config', rest')) \<Rightarrow> Inr (config', rest')
      | None \<Rightarrow>
          if arg = ''--no-aof'' then Inr (config\<lparr>aofEnabled := False\<rparr>, rest)
          else if arg = ''--no-snapshot'' then Inr (config\<lparr>snapshotEnabled := False\<rparr>, rest)
          else if arg = ''--readonly'' then Inr (config\<lparr>readOnly := True\<rparr>, rest)
          else if arg = ''--help'' \<or> arg = ''-h'' then Inl CliExit
          else Inl (CliError (''unknown option: '' @ arg)))"

lemma readValue_rest: "readValue name arg rest = Some (v, rest') \<Longrightarrow> length rest' \<le> length rest"
  by (auto simp: readValue_def split: if_splits)

lemma value_option_rest: "value_option opts arg rest config = Some (Inr (config', rest')) \<Longrightarrow> length rest' \<le> length rest"
  by (induction opts) (auto dest!: readValue_rest split: option.splits sum.splits)

lemma cli_option_rest: "cli_option arg rest config = Inr (config', rest') \<Longrightarrow> length rest' \<le> length rest"
  by (auto simp: cli_option_def dest: value_option_rest split: option.splits sum.splits if_splits)

function parseCommandLine :: "string list \<Rightarrow> ServerConfig \<Rightarrow> cli_result" where
  "parseCommandLine [] config = CliRun config"
| "parseCommandLine (arg # rest) config =
     (case cli_option arg rest config of
        Inl r \<Rightarrow> r
      | Inr (config', rest') \<Rightarrow> parseCommandLine rest' config')"
  by pat_completeness auto
termination
  by (relation "measure (\<lambda>(args, config). length args)") (auto dest!: cli_option_rest)

text \<open>What \<open>main\<close> does with both; \<open>files\<close> are the contents of the files that can be opened.\<close>

definition configure :: "(string \<Rightarrow> string option) \<Rightarrow> string list \<Rightarrow> ServerConfig \<Rightarrow> cli_result" where
  "configure files args defaults =
     (let path = findConfigPath args in
      case (if path = [] then Inr defaults else loadConfigFile path (files path) defaults) of
        Inl error \<Rightarrow> CliError error
      | Inr config \<Rightarrow> parseCommandLine args config)"

section \<open>Bounds\<close>

text \<open>
  What holds of every configuration the program runs with: the port fits 16 bits and is not zero, there
  is at least one database, and the sizes fit 64 bits.
\<close>

definition config_ok :: "ServerConfig \<Rightarrow> bool" where
  "config_ok config \<longleftrightarrow> 0 < port config \<and> port config < 2 ^ 16 \<and>
     0 < databaseCount config \<and> databaseCount config < 2 ^ 64 \<and>
     maxKeys (eviction config) < 2 ^ 64 \<and> maxMemoryBytes (eviction config) < 2 ^ 64"

lemma config_ok_default: "config_ok (default_config aof snapshot)"
  by (simp add: config_ok_def default_config_def default_eviction_def)

lemma parse_ranges:
  "parsePort raw = Some p \<Longrightarrow> 0 < p \<and> p < 2 ^ 16" "parseSize raw = Some n \<Longrightarrow> n < 2 ^ 64"
  "parseCount raw = Some n \<Longrightarrow> 0 < n \<and> n < 2 ^ 64"
  by (auto simp: parsePort_def parseSize_def parseCount_def dest: stoull_range split: option.splits if_splits)

lemma parsed_or_Inr [simp]: "parsed_or error x f = Inr config \<longleftrightarrow> (\<exists>y. x = Some y \<and> config = f y)"
  by (cases x) auto

lemma config_ok_updates:
  assumes "config_ok config"
  shows "config_ok (config\<lparr>host := t\<rparr>)" "config_ok (config\<lparr>aofPath := t\<rparr>)" "config_ok (config\<lparr>snapshotPath := t\<rparr>)"
    "config_ok (config\<lparr>authPassword := t\<rparr>)" "config_ok (config\<lparr>readOnly := b\<rparr>)" "config_ok (config\<lparr>aofEnabled := b\<rparr>)"
    "config_ok (config\<lparr>snapshotEnabled := b\<rparr>)" "parsePort raw = Some p \<Longrightarrow> config_ok (config\<lparr>port := p\<rparr>)"
    "parseCount raw = Some n \<Longrightarrow> config_ok (config\<lparr>databaseCount := n\<rparr>)"
    "parseSize raw = Some n \<Longrightarrow> config_ok (config\<lparr>eviction := (eviction config)\<lparr>maxKeys := n\<rparr>\<rparr>)"
    "parseSize raw = Some n \<Longrightarrow> config_ok (config\<lparr>eviction := (eviction config)\<lparr>maxMemoryBytes := n\<rparr>\<rparr>)"
    "config_ok (config\<lparr>eviction := (eviction config)\<lparr>policy := pol\<rparr>\<rparr>)"
  using assms parse_ranges by (simp_all add: config_ok_def)

lemma if_eqE:
  assumes "(if b then x else y) = z"
  obtains "b" "x = z" | "\<not> b" "y = z"
  using assms by (auto split: if_splits)

lemma applyConfigOption_ok:
  assumes "applyConfigOption key value config = Inr config'" "config_ok config"
  shows "config_ok config'"
  using assms unfolding applyConfigOption_def Let_def
  by (elim if_eqE) (auto intro: config_ok_updates)

lemma loadLines_ok: "loadLines path n input config = Inr config' \<Longrightarrow> config_ok config \<Longrightarrow> config_ok config'"
proof (induction path n input config rule: loadLines.induct)
  case (1 path n input config)
  show ?case
  proof (cases "getline input")
    case None
    then show ?thesis using "1.prems" by (simp add: loadLines.simps [of path n])
  next
    case (Some x)
    obtain line rest where x: "x = (line, rest)" by (cases x)
    obtain config1 where c: "config_line line config = Inr config1" "loadLines path (Suc n) rest config1 = Inr config'"
      using "1.prems"(1) Some x by (auto simp: loadLines.simps [of path n] split: sum.splits)
    have "config_ok config1"
      using c(1) "1.prems"(2) applyConfigOption_ok by (auto simp: config_line_def Let_def split: if_splits)
    then show ?thesis using "1.IH" [OF Some x [symmetric] c(1,2)] by blast
  qed
qed

lemma value_options_ok: "(name, f) \<in> set value_options \<Longrightarrow> f v config = Inr config' \<Longrightarrow> config_ok config \<Longrightarrow> config_ok config'"
  by (auto simp: value_options_def intro: config_ok_updates)

lemma value_option_ok:
  "value_option opts arg rest config = Some (Inr (config', rest')) \<Longrightarrow> set opts \<subseteq> set value_options \<Longrightarrow> config_ok config \<Longrightarrow> config_ok config'"
proof (induction opts)
  case (Cons opt opts)
  then show ?case
    using value_options_ok [of "fst opt" "snd opt"] by (cases opt) (fastforce split: option.splits sum.splits)
qed simp

lemma cli_option_ok: "cli_option arg rest config = Inr (config', rest') \<Longrightarrow> config_ok config \<Longrightarrow> config_ok config'"
  by (auto simp: cli_option_def config_ok_updates dest: value_option_ok split: option.splits sum.splits if_splits)

lemma cli_option_not_run: "cli_option arg rest config \<noteq> Inl (CliRun config')"
proof (cases "value_option value_options arg rest config")
  case (Some r)
  then show ?thesis by (cases r) (auto simp: cli_option_def)
qed (simp add: cli_option_def)

lemma parseCommandLine_ok: "parseCommandLine args config = CliRun config' \<Longrightarrow> config_ok config \<Longrightarrow> config_ok config'"
proof (induction args config rule: parseCommandLine.induct)
  case (2 arg rest config)
  obtain config1 rest' where c: "cli_option arg rest config = Inr (config1, rest')"
    using "2.prems"(1) cli_option_not_run [of arg rest config] by (cases "cli_option arg rest config") auto
  then show ?case using "2.IH" [OF c refl] "2.prems" cli_option_ok [OF c] by simp
qed simp

lemma configure_ok:
  assumes "configure files args defaults = CliRun config" "config_ok defaults"
  shows "config_ok config"
  using assms
  by (auto simp: configure_def Let_def loadConfigFile_def
      dest: loadLines_ok parseCommandLine_ok split: if_splits sum.splits option.splits)

section \<open>Properties\<close>

text \<open>
  C35: whatever the configuration file and the arguments hold, the program exits with a message or
  runs with a port between 1 and 65535, at least one database, and limits that fit their 64 bits.
\<close>

theorem configuration_bounds:
  assumes "configure files args (default_config aof snapshot) = CliRun config"
  shows "config_ok config"
  using assms config_ok_default by (rule configure_ok)

definition sample_file :: string where
  "sample_file = ''# cache'' @ [LF] @ ''port = 7000 # override'' @ [LF] @ ''databases=4''"

lemma sample_numbers:
  "stoull ''7000'' = Some (7000, 4)" "stoull ''4'' = Some (4, 1)" "stoull ''10'' = Some (10, 2)"
  "stoull ''-1'' = Some (18446744073709551615, 2)"
  by (simp_all add: stoull_def scan_int_def scan_sign_def isspace_def isdigit_def code_def digits_value_def signed_def)

lemma sample_file_lines:
  "getline sample_file = Some (''# cache'', ''port = 7000 # override'' @ [LF] @ ''databases=4'')"
  "getline (''port = 7000 # override'' @ [LF] @ ''databases=4'') = Some (''port = 7000 # override'', ''databases=4'')"
  "getline ''databases=4'' = Some (''databases=4'', [])" "getline [] = None"
  by code_simp+

lemma sample_lines:
  "config_line ''# cache'' config = Inr config"
  "config_line ''port = 7000 # override'' config = Inr (config\<lparr>port := 7000\<rparr>)"
  "config_line ''databases=4'' config = Inr (config\<lparr>databaseCount := 4\<rparr>)"
proof -
  have "trim [] = []" "trim ''port = 7000 '' = ''port = 7000''" "trim ''port '' = ''port''" "trim '' 7000'' = ''7000''"
      "trim ''databases=4'' = ''databases=4''" "trim ''databases'' = ''databases''" "trim ''4'' = ''4''"
      "toLower ''port'' = ''port''" "toLower ''databases'' = ''databases''" by code_simp+
  then show "config_line ''# cache'' config = Inr config"
      "config_line ''port = 7000 # override'' config = Inr (config\<lparr>port := 7000\<rparr>)"
      "config_line ''databases=4'' config = Inr (config\<lparr>databaseCount := 4\<rparr>)"
    by (simp_all add: config_line_def applyConfigOption_def Let_def parsePort_def parseCount_def parseSize_def sample_numbers)
qed

theorem configuration_bounds_witness:
  "\<exists>config. configure (\<lambda>_. Some sample_file) [''--config'', ''f'', ''--max-keys=10''] (default_config ''a'' ''s'') = CliRun config \<and>
     config_ok config \<and> port config = 7000 \<and> databaseCount config = 4"
proof -
  let ?c = "(default_config ''a'' ''s'')\<lparr>port := 7000, databaseCount := 4, eviction := default_eviction\<lparr>maxKeys := 10\<rparr>\<rparr>"
  have "loadLines ''f'' 0 sample_file config = Inr (config\<lparr>port := 7000, databaseCount := 4\<rparr>)" for config
    by (simp add: loadLines.simps [of _ 0] loadLines.simps [of _ "Suc 0"] loadLines.simps [of _ "Suc (Suc 0)"]
        loadLines.simps [of _ "Suc (Suc (Suc 0))"] sample_file_lines [simplified] sample_lines)
  then have c: "configure (\<lambda>_. Some sample_file) [''--config'', ''f'', ''--max-keys=10''] (default_config ''a'' ''s'') = CliRun ?c"
    by (simp add: configure_def loadConfigFile_def cli_option_def value_options_def readValue_def optionValue_def parseSize_def
        sample_numbers default_config_def)
  from configuration_bounds [OF c] c show ?thesis by auto
qed

text \<open>
  A negative size is accepted and becomes huge: \<open>--databases -1\<close> asks for \<open>2 ^ 64 - 1\<close> databases
  and \<open>--max-keys=-1\<close> sets a limit that is never reached.
\<close>

lemma negative_size_accepted:
  "configure (\<lambda>_. None) [''--databases'', ''-1'', ''--max-keys=-1''] (default_config aof snapshot) =
     CliRun ((default_config aof snapshot)\<lparr>databaseCount := 2 ^ 64 - 1, eviction := default_eviction\<lparr>maxKeys := 2 ^ 64 - 1\<rparr>\<rparr>)"
proof -
  have "parseCount ''-1'' = Some (2 ^ 64 - 1)" "parseSize ''-1'' = Some (2 ^ 64 - 1)"
    by (simp_all add: parseCount_def parseSize_def sample_numbers)
  then show ?thesis
    by (simp add: configure_def cli_option_def value_options_def readValue_def optionValue_def default_config_def)
qed

end
