(* ===== verification/Startup.thy ===== *)
theory Startup
  imports Serving ServerConfig
begin

text \<open>
  The start of the program, \<open>main\<close> in \<open>src/swiftcache/src/main.cpp\<close>: the databases are made and
  configured, the snapshot is loaded, the append-only file is replayed, and the server is built.
  Whatever bytes the two files hold, the server that starts satisfies the invariant of the running
  system. The loops of the listening socket and the shutdown of the workers are not modelled.
\<close>

section \<open>What a snapshot file can put into a store\<close>

lemma read_then_Some:
  "read_then m g = Inr (Some y) \<longleftrightarrow> (\<exists>x r. m = Inr (Some (x, r)) \<and> g x r = Inr (Some y))"
  by (cases m; cases "projr m") auto

lemma decode_n_all:
  assumes "\<And>s x r. dec s = Inr (Some (x, r)) \<Longrightarrow> P x"
  shows "decode_n dec n s = Inr (Some (xs, r)) \<Longrightarrow> \<forall>x\<in>set xs. P x"
  by (induction n arbitrary: s xs) (auto simp: read_then_Some dest: assms)

lemma distinct_insert_fields: "distinct_keys h \<Longrightarrow> distinct_keys (foldl (\<lambda>h (f, v). AList.update f v h) h fs)"
  by (induction fs arbitrary: h) (auto simp: AList.distinct_update)

lemma distinct_insert_members: "distinct acc \<Longrightarrow> distinct (foldl (\<lambda>acc x. if x \<in> set acc then acc else acc @ [x]) acc ms)"
  by (induction ms arbitrary: acc) auto

lemma readPayload_wf:
  assumes "readPayload alloc (loaded_object type created expires) s = Inr (Some (obj, r))"
    and "in_llong created" "in_llong expires"
  shows "wf_obj obj"
proof -
  let ?obj = "loaded_object type created expires"
  consider v where "type = type_String" "obj = ?obj\<lparr>vo_value := v\<rparr>"
    | l where "type = type_List" "obj = ?obj\<lparr>vo_list := l\<rparr>"
    | fs where "type = type_Hash" "obj = ?obj\<lparr>vo_hash := foldl (\<lambda>h (f, v). AList.update f v h) [] fs\<rparr>"
    | ms where "type = type_Set" "obj = ?obj\<lparr>vo_set := foldl (\<lambda>acc x. if x \<in> set acc then acc else acc @ [x]) [] ms\<rparr>"
    using assms(1) unfolding readPayload_def
    by (elim if_eqE) (auto simp: read_then_Some loaded_object_def)
  then show ?thesis
    by cases (simp_all add: assms(2,3) loaded_object_def wf_obj_def wf_payload_def wf_times_def
        distinct_insert_fields distinct_insert_members)
qed

lemma readLongLong_range: "readLongLong s = Inr (Some (i, r)) \<Longrightarrow> in_llong i"
  by (auto simp: readLongLong_def read_then_Some stoll_def split: option.splits if_splits)

lemma readEntry_wf: "readEntry alloc s = Inr (Some ((k, obj), r)) \<Longrightarrow> wf_obj obj"
  by (auto simp: readEntry_def read_then_Some dest!: readLongLong_range intro: readPayload_wf)

lemma readEntries_wf:
  assumes "readEntries alloc s = Inr (Some (entries, r))"
  shows "\<forall>(k, obj)\<in>set entries. wf_obj obj"
proof -
  obtain n r1 where d: "decode_n (readEntry alloc) n r1 = Inr (Some (entries, r))"
    using assms by (auto simp: readEntries_def read_then_Some split: if_splits)
  have "\<forall>x\<in>set entries. wf_obj (snd x)"
    by (rule decode_n_all [OF _ d]) (use readEntry_wf in \<open>metis prod.collapse\<close>)
  then show ?thesis by auto
qed

definition all_wf :: "DataStore list \<Rightarrow> bool" where
  "all_wf stores \<longleftrightarrow> (\<forall>s\<in>set stores. wf_store s)"

lemma all_wf_update: "all_wf stores \<Longrightarrow> wf_store s \<Longrightarrow> all_wf (stores[i := s])"
  by (auto simp: all_wf_def dest!: subsetD [OF set_update_subset_insert])

lemma all_wf_flush: "all_wf stores \<Longrightarrow> all_wf (take i stores @ map ds_flushdb (drop i stores))"
  using set_take_subset [of i stores] set_drop_subset [of i stores] by (auto simp: all_wf_def wf_ds_flushdb)

lemma loadStores_wf:
  "loadStores es alloc n i s stores = Inr (ok, stores') \<Longrightarrow> all_wf stores \<Longrightarrow> \<forall>j. clock_ok (es j) \<Longrightarrow>
     all_wf stores' \<and> length stores' = length stores"
proof (induction es alloc n i s stores rule: loadStores.induct)
  case (1 es alloc i s stores)
  then show ?case by (auto simp: all_wf_flush)
next
  case (2 es alloc n i s stores)
  consider "stores' = stores" | entries r where "readEntries alloc s = Inr (Some (entries, r))"
      "loadStores es alloc n (Suc i) r
        (if i < length stores then stores[i := ds_loadSnapshot (es i) entries (stores ! i)] else stores) = Inr (ok, stores')"
    using "2.prems"(1) by (auto split: sum.splits option.splits)
  then show ?case
  proof cases
    case 1
    then show ?thesis using "2.prems" by simp
  next
    case 2
    have "all_wf (if i < length stores then stores[i := ds_loadSnapshot (es i) entries (stores ! i)] else stores)"
      using "2.prems"(2) readEntries_wf [OF 2(1)] "2.prems"(3) by (auto intro!: all_wf_update wf_ds_loadSnapshot)
    then show ?thesis using "2.IH" [OF 2(1) refl refl 2(2)] "2.prems"(3) by (simp split: if_splits)
  qed
qed

lemma snapshot_load_wf:
  assumes "snapshot_load es alloc file stores = Inr (ok, stores')" "all_wf stores" "\<forall>j. clock_ok (es j)"
  shows "all_wf stores' \<and> length stores' = length stores"
proof -
  consider "stores' = stores"
    | s entries r st ss where "readEntries alloc s = Inr (Some (entries, r))" "stores = st # ss"
        "stores' = ds_loadSnapshot (es 0) entries st # map ds_flushdb ss"
    | n r where "loadStores es alloc n 0 r stores = Inr (ok, stores')"
    using assms(1) by (auto simp: snapshot_load_def split: option.splits if_splits sum.splits list.splits)
  then show ?thesis
  proof cases
    case 1
    then show ?thesis using assms(2) by simp
  next
    case 2
    then show ?thesis
      using assms(2,3) readEntries_wf [OF 2(1)] by (auto simp: all_wf_def wf_ds_flushdb intro: wf_ds_loadSnapshot)
  next
    case 3
    then show ?thesis using loadStores_wf assms(2,3) by blast
  qed
qed

section \<open>What replay can do to the stores\<close>

lemma replay_one_wf:
  assumes "replay_one src e ts (db, stores) = Inr (db', stores')" "all_wf stores" "db < length stores" "clock_ok e"
  shows "all_wf stores' \<and> length stores' = length stores \<and> db' < length stores"
proof -
  let ?n = "toUpper (hd ts)"
  note eq = assms(1) [unfolded replay_one_def prod.case]
  consider (none) "ts = []" | (flush) "ts \<noteq> []" "?n = ''FLUSHALL''" | (move) "ts \<noteq> []" "?n = ''MOVE''" | (sel) "ts \<noteq> []" "?n = ''SELECT''"
    | (other) "ts \<noteq> []" "?n \<noteq> ''FLUSHALL''" "?n \<noteq> ''MOVE''" "?n \<noteq> ''SELECT''" by blast
  then show ?thesis
  proof cases
    case none
    then show ?thesis using eq assms(2,3) by simp
  next
    case flush
    then show ?thesis using eq flush_all_shape [of stores] assms(2,3) by (auto simp: shape_kept_def all_wf_def split: if_splits)
  next
    case move
    have "shape_kept stores (snd (move_between e k db j stores))" if "replay_index (ts ! 2) (length stores) = Some j" for j k
      using move_between_shape [of stores e db j k] assms(2-4) replay_index_less [OF that] by (simp add: all_wf_def)
    then show ?thesis using eq move assms(2,3) by (auto simp: shape_kept_def all_wf_def split: if_splits option.splits)
  next
    case sel
    then show ?thesis using eq assms(2,3) by (auto dest: replay_index_less split: if_splits option.splits)
  next
    case other
    then obtain res s' where r: "registry_execute (buildCommandRegistry src) e ts (stores ! db) = Inr (res, s')"
        and st: "stores' = stores[db := s']" "db' = db"
      using eq by auto
    have "wf_store s'" using wf_registry_execute [OF r] assms(2-4) by (simp add: all_wf_def)
    then show ?thesis using all_wf_update [OF assms(2)] assms(3) st by simp
  qed
qed

lemma replay_all_wf:
  "replay_all src es i cs (db, stores) = Inr (db', stores') \<Longrightarrow> all_wf stores \<Longrightarrow> db < length stores \<Longrightarrow>
     \<forall>j. clock_ok (es j) \<Longrightarrow> all_wf stores' \<and> length stores' = length stores"
proof (induction cs arbitrary: i db stores)
  case (Cons c cs)
  from Cons.prems(1) obtain db1 stores1 where one: "replay_one src (es i) (tokens c) (db, stores) = Inr (db1, stores1)"
      "replay_all src es (Suc i) cs (db1, stores1) = Inr (db', stores')" by auto
  have w: "all_wf stores1 \<and> length stores1 = length stores \<and> db1 < length stores"
    using replay_one_wf [OF one(1)] Cons.prems by blast
  then show ?case using Cons.IH [OF one(2)] Cons.prems(4) by simp
qed simp

lemma replay_wf:
  assumes "replay src es ok file stores = Inr stores'" "all_wf stores" "stores \<noteq> []" "\<forall>j. clock_ok (es j)"
  shows "all_wf stores' \<and> length stores' = length stores"
  using assms replay_all_wf [of src es 0 _ 0 stores] by (auto simp: replay_def split: option.splits)

section \<open>Starting the server\<close>

text \<open>What the start finds and decides: the two files, the readings of the clock, and the allocations granted.\<close>

record boot =
  boot_snapshot :: "string option"
  boot_aof :: "string option"
  boot_info :: info_sources
  boot_env :: env
  boot_load_envs :: "nat \<Rightarrow> env"
  boot_replay_envs :: "nat \<Rightarrow> env"
  boot_databases_ok :: "nat \<Rightarrow> bool"
  boot_alloc :: allocator
  boot_reserve_ok :: "nat \<Rightarrow> bool"

text \<open>The constructor of the server on several databases; the other members have their initial values.\<close>

definition new_server :: "DataStore list \<Rightarrow> ServerMetrics \<Rightarrow> Aof option \<Rightarrow> string \<Rightarrow> bool \<Rightarrow> string option option
    \<Rightarrow> EvictionConfig \<Rightarrow> TcpServer" where
  "new_server stores metrics aof password read_only snapshot evc =
     \<lparr>srv_stores = stores, srv_aof = aof, srv_snapshot = snapshot, srv_metrics = metrics, srv_evictionConfig = evc,
      srv_authPassword = password, srv_readOnly = read_only, srv_nextClientId = 1,
      srv_clients = [], srv_pubsub = no_subscriptions\<rparr>"

declare new_server_def [simp]

text \<open>\<open>None\<close> is the exit with a message because the snapshot cannot be read.\<close>

definition startup :: "boot \<Rightarrow> ServerConfig \<Rightarrow> TcpServer option outcome" where
  "startup b config =
     (if \<not> boot_databases_ok b (databaseCount config) then Inl AllocationFailure
      else
        let stores = replicate (databaseCount config) (configureEviction (boot_env b) (eviction config) empty_store) in
        and_then (if snapshotEnabled config then snapshot_load (boot_load_envs b) (boot_alloc b) (boot_snapshot b) stores
                  else Inr (True, stores)) (\<lambda>(loaded, stores1).
        if \<not> loaded then Inr None
        else and_then (if aofEnabled config
                       then replay (boot_info b) (boot_replay_envs b) (boot_reserve_ok b) (boot_aof b) stores1
                       else Inr stores1) (\<lambda>stores2.
          Inr (Some
            (new_server stores2 initial_metrics
               (if aofEnabled config
                then Some \<lparr>aof_file = (case boot_aof b of None \<Rightarrow> [] | Some t \<Rightarrow> t), currentAppendDatabase = 0\<rparr>
                else None)
               (authPassword config) (readOnly config)
               (if snapshotEnabled config then Some (boot_snapshot b) else None)
               (eviction config))))))"

definition boot_clocks_ok :: "boot \<Rightarrow> bool" where
  "boot_clocks_ok b \<longleftrightarrow> (\<forall>j. clock_ok (boot_load_envs b j)) \<and> (\<forall>j. clock_ok (boot_replay_envs b j))"

lemma startup_wf:
  assumes "startup b config = Inr (Some srv)" "0 < databaseCount config" "boot_clocks_ok b"
  shows "all_wf (srv_stores srv) \<and> length (srv_stores srv) = databaseCount config \<and>
    srv_pubsub srv = no_subscriptions \<and> srv_metrics srv = initial_metrics \<and> srv_clients srv = []"
proof -
  let ?stores = "replicate (databaseCount config) (configureEviction (boot_env b) (eviction config) empty_store)"
  have "all_wf ?stores" by (simp add: all_wf_def configureEviction_def wf_evictIfNeeded)
  moreover obtain stores1 where l: "(if snapshotEnabled config then snapshot_load (boot_load_envs b) (boot_alloc b) (boot_snapshot b) ?stores
                  else Inr (True, ?stores)) = Inr (True, stores1)"
      and r: "(if aofEnabled config then replay (boot_info b) (boot_replay_envs b) (boot_reserve_ok b) (boot_aof b) stores1
                       else Inr stores1) = Inr (srv_stores srv)"
      and rest: "srv_pubsub srv = no_subscriptions" "srv_metrics srv = initial_metrics" "srv_clients srv = []"
    using assms(1) by (auto simp: startup_def Let_def split: if_splits)
  ultimately have s1: "all_wf stores1 \<and> length stores1 = databaseCount config"
    using snapshot_load_wf [of "boot_load_envs b" "boot_alloc b" "boot_snapshot b" ?stores True stores1] assms(3)
    by (cases "snapshotEnabled config") (auto simp: boot_clocks_ok_def)
  then have "stores1 \<noteq> []" using assms(2) by auto
  then show ?thesis
    using s1 r rest replay_wf [of "boot_info b" "boot_replay_envs b" "boot_reserve_ok b" "boot_aof b" stores1 "srv_stores srv"] assms(3)
    by (cases "aofEnabled config") (simp_all add: boot_clocks_ok_def)
qed

section \<open>Properties\<close>


definition first_boot :: boot where
  "first_boot =
     \<lparr>boot_snapshot = None, boot_aof = Some (encodeRespCommand [''SET'', ''k'', ''v'']), boot_info = no_info,
      boot_env = frozen 1000, boot_load_envs = \<lambda>_. frozen 1000, boot_replay_envs = \<lambda>_. frozen 1000,
      boot_databases_ok = \<lambda>n. n < 1000, boot_alloc = small_allocator, boot_reserve_ok = \<lambda>n. n < 100\<rparr>"


end
