(* ===== verification/Restart.thy ===== *)
theory Restart
  imports Startup
begin

text \<open>
  The persistence of the whole program: a server saves a snapshot, which empties its append-only
  file, runs commands, and stops; the server that starts from the two files has the same data.
\<close>

section \<open>A saved server\<close>

lemma saveSnapshot_checkpoint:
  assumes "saveSnapshot w file srv = Inr (True, srv1)" "srv_aof srv = Some a0"
  obtains file' where "snapshot_save (w_snapshot_envs w) (w_save_io w) file (srv_stores srv) = Inr (True, file', srv_stores srv1)"
    "srv_snapshot srv1 = Some file'" "srv_aof srv1 = Some empty_aof"
  using assms by (auto simp: saveSnapshot_def save_all_def checkpoint_def empty_aof_def split: if_splits)

lemma same_views_later:
  assumes "length xs = length ys" "\<forall>j<length ys. view (t j) (xs ! j) = view (t j) (ys ! j)" "\<forall>j. t j \<le> now"
  shows "views now xs = views now ys"
proof (rule nth_equalityI)
  fix j assume "j < length (views now xs)"
  then have "j < length ys" using assms(1) by simp
  then show "views now xs ! j = views now ys ! j"
    using assms view_tick [of "t j" now] by simp
qed (simp add: assms(1))

lemma writeStores_off: "writeStores es io i ss = (x, ss') \<Longrightarrow> map eviction_off ss' = map eviction_off ss"
proof (induction es io i ss arbitrary: x ss' rule: writeStores.induct)
  case (2 es io i s ss)
  then show ?case
    by (cases "ds_snapshot (es i) s")
      (auto simp: ds_snapshot_def Let_def split: option.splits if_splits prod.splits)
qed simp

lemma good_stores_saved:
  assumes "snapshot_save es io file ss = Inr (True, file', ss')" "good_stores ss" "\<forall>j. clock (es j) 0 \<le> now"
  shows "good_stores ss'" "views now ss' = views now ss" "length ss' = length ss"
proof -
  obtain body where w: "writeStores es io 0 ss = (Some body, ss')"
    using assms(1) by (auto simp: snapshot_save_def split: if_splits option.splits prod.splits)
  have "\<forall>s\<in>set ss. wf_store s" using assms(2) by (simp add: good_stores_def)
  note v = writeStores_views [OF this w]
  have "\<forall>s\<in>set ss'. eviction_off s" using writeStores_off [OF w] assms(2)
    by (metis (no_types, lifting) good_stores_def in_set_conv_nth length_map nth_map nth_mem)
  with v show "good_stores ss'" by (simp add: good_stores_def)
  show "length ss' = length ss" using v by simp
  show "views now ss' = views now ss"
    using same_views_later [of ss' ss "\<lambda>j. clock (es j) 0" now] v assms(3) by simp
qed

section \<open>The next start\<close>

text \<open>
  What the next start relies on: both files are in use, the number of databases is the same, eviction is
  off, the allocations are granted, and the clock has not been set back.
\<close>

definition restart_ok :: "int \<Rightarrow> int \<Rightarrow> nat \<Rightarrow> ServerConfig \<Rightarrow> boot \<Rightarrow> bool" where
  "restart_ok now later n config b \<longleftrightarrow>
     snapshotEnabled config \<and> aofEnabled config \<and> databaseCount config = n \<and> boot_databases_ok b n \<and>
     (policy (eviction config) = PolicyNone \<or> maxKeys (eviction config) = 0 \<and> maxMemoryBytes (eviction config) = 0) \<and>
     (\<forall>j. clock_ok (boot_load_envs b j) \<and> now \<le> clock (boot_load_envs b j) 0
        \<and> clock (boot_load_envs b j) 0 \<le> clock (boot_replay_envs b 0) 0) \<and>
     steady_clock (boot_replay_envs b) \<and> (\<forall>i. clock (boot_replay_envs b i) 0 \<le> later)"

lemma startup_after_save:
  assumes saved: "snapshot_save es io file ss = Inr (True, boot_snapshot b, ss')" "good_stores ss" "\<forall>j. clock (es j) 0 \<le> now"
    and plain: "\<forall>s\<in>set ss. storable_store (boot_alloc b) s" "ss \<noteq> []" "int (length ss) < llong_max" "plain_dbs (views now ss)"
    and run: "requests_ok (boot_reserve_ok b) (length ss) now qs" "boot_reserve_ok b 2"
      "live_run src qs ss' (Some empty_aof) = Inr (stores', Some a)" "boot_aof b = Some (aof_file a)"
    and boot: "restart_ok now later (length ss) config b" "last_time now qs \<le> later"
  shows "\<exists>srv. startup b config = Inr (Some srv) \<and> views later (srv_stores srv) = views later stores'"
proof -
  let ?ts = "replicate (length ss) (configureEviction (boot_env b) (eviction config) empty_store)"
  let ?start = "clock (boot_replay_envs b 0) 0"
  note r = boot(1) [unfolded restart_ok_def]
  note ss' = good_stores_saved [OF saved]
  have ts: "\<forall>t\<in>set ?ts. eviction_off t" using r by (auto simp: configureEviction_def eviction_off_def)
  moreover have "fits (length ss)" using plain(3) by (simp add: llong_max_def)
  moreover have "\<forall>j. clock (es j) 0 \<le> clock (boot_load_envs b j) 0" using r saved(3) by (meson order_trans)
  ultimately obtain loaded where l: "snapshot_load (boot_load_envs b) (boot_alloc b) (boot_snapshot b) ?ts = Inr (True, loaded)"
      "length loaded = length ss" "\<forall>t\<in>set loaded. eviction_off t"
      "\<forall>j<length ss. view (clock (boot_load_envs b j) 0) (loaded ! j) = view (clock (boot_load_envs b j) 0) (ss ! j)"
    using snapshot_round_trip [OF saved(1) plain(1), of ?ts "boot_load_envs b"] by auto
  have "all_wf ?ts" by (simp add: all_wf_def configureEviction_def wf_evictIfNeeded)
  then have "all_wf loaded" using snapshot_load_wf [OF l(1)] r by blast
  then have good: "good_stores loaded" using l(3) by (simp add: good_stores_def all_wf_def)
  have "views ?start loaded = views ?start ss"
    using same_views_later [of loaded ss "\<lambda>j. clock (boot_load_envs b j) 0" ?start] l(2,4) r by simp
  also have "\<dots> = views now ss'" 
    using views_later [OF plain(4), of ?start] r ss'(2) by (metis order_trans)
  finally have start: "views ?start loaded = views now ss'" .
  have c: "steady_clock (boot_replay_envs b)" "\<forall>i. clock (boot_replay_envs b i) 0 \<le> later" using r by blast+
  have p: "ss' \<noteq> []" "int (length ss') < llong_max" "plain_dbs (views now ss')" "requests_ok (boot_reserve_ok b) (length ss') now qs"
    using plain(2-4) ss' run(1) by auto
  note durable = run_durable [where ok = "boot_reserve_ok b" and es = "boot_replay_envs b" and src' = "boot_info b",
      OF ss'(1) p run(2,3) good start c(1) order_refl c(2) boot(2)]
  then obtain restored where
      "replay (boot_info b) (boot_replay_envs b) (boot_reserve_ok b) (Some (aof_file a)) loaded = Inr restored"
      "views later restored = views later stores'" by auto
  then show ?thesis using l(1) r run(4) by (simp add: startup_def Let_def)
qed

section \<open>Properties\<close>


definition later_requests :: "request list" where
  "later_requests =
     [\<lparr>req_env = frozen 3000, req_db = 1, req_tokens = [''SET'', ''k'', ''1'']\<rparr>,
      \<lparr>req_env = frozen 4000, req_db = 0, req_tokens = [''RPUSH'', ''l'', ''y'']\<rparr>]"

definition second_boot :: "string option \<Rightarrow> string \<Rightarrow> boot" where
  "second_boot snapshot log =
     \<lparr>boot_snapshot = snapshot, boot_aof = Some log, boot_info = no_info, boot_env = frozen 5000,
      boot_load_envs = \<lambda>_. frozen 5000, boot_replay_envs = \<lambda>_. frozen 6000, boot_databases_ok = \<lambda>n. n < 1000,
      boot_alloc = small_allocator, boot_reserve_ok = \<lambda>n. n < 100\<rparr>"


end
