(* ===== verification/SingleStore.thy ===== *)
theory SingleStore
  imports Startup
begin

text \<open>
  The overloads of saving, loading and replay for a single store
  (\<open>src/swiftcache/src/core/SnapshotPersistence.cpp\<close> and \<open>AofPersistence.cpp\<close>). They work through
  a temporary list of one store: a copy of the store is saved, and what a fresh store loads or replays is
  copied into the store. Each copy reads the clock of its own environment.
\<close>

section \<open>Operations\<close>

definition copy_into :: "env \<Rightarrow> env \<Rightarrow> DataStore \<Rightarrow> DataStore \<Rightarrow> DataStore" where
  "copy_into e e' s t = ds_loadSnapshot e' (fst (ds_snapshot e s)) t"

definition save_one :: "env \<Rightarrow> env \<Rightarrow> (nat \<Rightarrow> env) \<Rightarrow> save_io \<Rightarrow> string option \<Rightarrow> DataStore
    \<Rightarrow> (bool \<times> string option \<times> DataStore) outcome" where
  "save_one e e' es io file s =
     and_then (snapshot_save es io file [copy_into e e' s empty_store])
       (\<lambda>(saved, file', copies). Inr (saved, file', snd (ds_snapshot e s)))"

text \<open>A missing file loads as an empty store, and so empties the store.\<close>

definition load_one :: "(nat \<Rightarrow> env) \<Rightarrow> env \<Rightarrow> env \<Rightarrow> allocator \<Rightarrow> string option \<Rightarrow> DataStore \<Rightarrow> (bool \<times> DataStore) outcome" where
  "load_one es e e' alloc file s =
     and_then (snapshot_load es alloc file [empty_store])
       (\<lambda>(loaded, stores). Inr (if loaded then (True, copy_into e e' (stores ! 0) s) else (False, s)))"

definition replay_store :: "info_sources \<Rightarrow> (nat \<Rightarrow> env) \<Rightarrow> env \<Rightarrow> env \<Rightarrow> (nat \<Rightarrow> bool) \<Rightarrow> string option \<Rightarrow> DataStore
    \<Rightarrow> DataStore outcome" where
  "replay_store src es e e' reserve_ok file s =
     and_then (replay src es reserve_ok file [empty_store]) (\<lambda>stores. Inr (copy_into e e' (stores ! 0) s))"

section \<open>A copy shows what the store shows\<close>

lemma find_key_copy:
  assumes "wf_store s" "eviction_off t"
  shows "find_key k (copy_into e e' s t) =
    (case find_key k s of
       None \<Rightarrow> None
     | Some obj \<Rightarrow> if isExpired obj (clock e 0) \<or> isExpired obj (clock e' 0) then None
         else Some (if lastAccessedAt obj = -1 then obj\<lparr>lastAccessedAt := clock e' 0\<rparr> else obj))"
  using find_key_load_loop [OF distinct_snapshot [OF assms(1)], of k "clock e' 0" e "t\<lparr>store_values := []\<rparr>"] assms(2)
  by (auto simp: copy_into_def ds_loadSnapshot_def map_of_snapshot [OF assms(1)] find_key_def [of k "t\<lparr>store_values := []\<rparr>"]
      split: option.split)

lemma view_copy:
  assumes "wf_store s" "eviction_off t" "clock e 0 \<le> now" "clock e' 0 \<le> now"
  shows "view now (copy_into e e' s t) = view now s"
  using assms isExpired_mono
  by (fastforce simp: view_def find_key_copy [OF assms(1,2)] fun_eq_iff isExpired_def split: option.split)

lemma wf_copy: "wf_store s \<Longrightarrow> clock_ok e' \<Longrightarrow> wf_store (copy_into e e' s t)"
  unfolding copy_into_def by (rule wf_ds_loadSnapshot) (use set_snapshot [of e s] in \<open>auto simp: wf_store_def\<close>)

lemma storable_accessed: "storable alloc (k, obj) \<Longrightarrow> in_llong t \<Longrightarrow> storable alloc (k, obj\<lparr>lastAccessedAt := t\<rparr>)"
  by (simp add: storable_def)

lemma storable_copy:
  assumes "storable_store alloc s" "clock_ok e'"
  shows "storable_store alloc (copy_into e e' s empty_store)"
proof -
  let ?c = "copy_into e e' s empty_store"
  have wf: "wf_store s" "wf_store ?c" using assms wf_copy by (simp_all add: storable_store_def)
  have mem: "(k, obj) \<in> set (store_values x) \<longleftrightarrow> find_key k x = Some obj" if "wf_store x" for x k obj
    using that by (simp add: find_key_def wf_distinct)
  have "storable alloc (k, obj)" if "(k, obj) \<in> set (store_values ?c)" for k obj
    using that assms by (auto simp: mem [OF wf(2)] find_key_copy [OF wf(1)] mem [OF wf(1), symmetric] storable_store_def
        intro!: storable_accessed split: option.splits if_splits)
  moreover have "dom (map_of (store_values ?c)) \<subseteq> dom (map_of (store_values s))"
    using find_key_copy [OF wf(1), of empty_store _ e e'] by (auto simp: find_key_def split: option.splits)
  then have "length (store_values ?c) \<le> length (store_values s)"
    using wf by (simp add: length_eq_card_dom wf_distinct card_mono finite_dom_map_of)
  ultimately show ?thesis using assms(1) wf(2) by (auto simp: storable_store_def)
qed

lemma one_store_round_trip:
  assumes "save_one e1 e2 es io file s = Inr (True, file', s')" "storable_store alloc s" "eviction_off t"
    and "clock_ok e2" "\<forall>j. clock_ok (es' j)"
    and "clock e1 0 \<le> clock (es' 0) 0" "clock e2 0 \<le> clock (es' 0) 0" "\<forall>j. clock (es j) 0 \<le> clock (es' j) 0"
    and "clock (es' 0) 0 \<le> now" "clock e3 0 \<le> now" "clock e4 0 \<le> now"
  shows "\<exists>t'. load_one es' e3 e4 alloc file' t = Inr (True, t') \<and> view now t' = view now s \<and> view now s' = view now s"
proof -
  let ?c = "copy_into e1 e2 s empty_store"
  have wf: "wf_store s" using assms(2) by (simp add: storable_store_def)
  obtain copies where "snapshot_save es io file [?c] = Inr (True, file', copies)" and s': "s' = snd (ds_snapshot e1 s)"
    using assms(1) by (auto simp: save_one_def)
  from snapshot_round_trip [OF this(1), of alloc "[empty_store]" es'] storable_copy [OF assms(2,4)] assms(8)
  obtain u where u: "snapshot_load es' alloc file' [empty_store] = Inr (True, [u])" "eviction_off u"
      "view (clock (es' 0) 0) u = view (clock (es' 0) 0) ?c"
    by (auto simp: length_Suc_conv)
  have "all_wf [u]" using snapshot_load_wf [OF u(1)] assms(5) by (simp add: all_wf_def)
  then have "view now (copy_into e3 e4 u t) = view now u"
    using view_copy [of u t e3 now e4] assms(3,10,11) by (simp add: all_wf_def)
  also have "\<dots> = view now ?c" using u(3) by (simp add: view_tick [OF assms(9)])
  also have "\<dots> = view now s" using view_copy [OF wf, of empty_store e1 now e2] assms(6,7,9) by simp
  finally have "view now (copy_into e3 e4 u t) = view now s" .
  moreover have "view now s' = view now s"
    using view_snapshot [OF wf, of e1] view_tick [of "clock e1 0" now] assms(6,9) s' by simp
  ultimately show ?thesis using u(1) by (simp add: load_one_def)
qed

section \<open>Properties\<close>



end
