(* ===== verification/Sockets.thy ===== *)
theory Sockets
  imports CppText "HOL-Library.Word" "HOL-Library.Sublist"
begin

text \<open>
  The calls of \<open>src/swiftcache/src/networking/TcpServer.cpp\<close> on sockets: opening and closing the
  listening socket, the loop that accepts connections, and the loop that sends a response. What the
  operating system answers is an argument.
\<close>

section \<open>The listening socket\<close>

text \<open>The answers of the system calls in \<open>start\<close>; \<open>inet_pton\<close> reads a dotted address.\<close>

record net_io =
  net_socket :: int
  net_setsockopt_ok :: bool
  net_inet_pton :: "string \<Rightarrow> 32 word option"
  net_bind_ok :: "32 word \<Rightarrow> bool"
  net_listen_ok :: bool

text \<open>The state of the listener, with the descriptors it has opened and closed so far.\<close>

record listener =
  serverFd :: int
  running :: bool
  opened :: "int list"
  closed :: "int list"

definition new_listener :: listener where
  "new_listener = \<lparr>serverFd = -1, running = False, opened = [], closed = []\<rparr>"

definition closeIfOpen :: "int \<Rightarrow> listener \<Rightarrow> listener" where
  "closeIfOpen fd l = (if fd \<ge> 0 then l\<lparr>closed := closed l @ [fd]\<rparr> else l)"

definition resolveHost :: "(string \<Rightarrow> 32 word option) \<Rightarrow> string \<Rightarrow> 32 word option" where
  "resolveHost inet_pton host =
     (if host = ''localhost'' then Some 0x7F000001
      else if host = ''*'' then Some 0
      else inet_pton host)"

definition give_up :: "listener \<Rightarrow> bool \<times> listener" where
  "give_up l = (False, (closeIfOpen (serverFd l) l)\<lparr>serverFd := -1\<rparr>)"

text \<open>Up to the call of \<open>acceptLoop\<close>: whether the server listens.\<close>

definition start :: "net_io \<Rightarrow> string \<Rightarrow> listener \<Rightarrow> bool \<times> listener" where
  "start io host l0 =
     (let fd = net_socket io; l = l0\<lparr>serverFd := fd, opened := opened l0 @ (if fd < 0 then [] else [fd])\<rparr> in
      if fd < 0 then (False, l)
      else if \<not> net_setsockopt_ok io then give_up l
      else (case resolveHost (net_inet_pton io) host of
              None \<Rightarrow> give_up l
            | Some address \<Rightarrow>
                if \<not> net_bind_ok io address then give_up l
                else if \<not> net_listen_ok io then give_up l
                else (True, l\<lparr>running := True\<rparr>)))"

definition stop :: "listener \<Rightarrow> listener" where
  "stop l = (closeIfOpen (serverFd l) (l\<lparr>running := False\<rparr>))\<lparr>serverFd := -1\<rparr>"

text \<open>
  The accepting loop: \<open>flag i\<close> is the \<open>i\<close>-th reading of \<open>running_\<close> and \<open>accepted i\<close> the \<open>i\<close>-th answer of
  \<open>accept\<close>. The result is the descriptors for which a handler was started, in order.
\<close>

partial_function (option) acceptLoop :: "(nat \<Rightarrow> bool) \<Rightarrow> (nat \<Rightarrow> int) \<Rightarrow> nat \<Rightarrow> int list option" where
  "acceptLoop flag accepted i =
     (if \<not> flag i then Some []
      else Option.bind (acceptLoop flag accepted (Suc i))
             (\<lambda>fds. Some (if accepted i < 0 then fds else accepted i # fds)))"

section \<open>Sending\<close>

datatype send_result = Sent nat | Interrupted | SendError

text \<open>
  The loop of \<open>sendResponse\<close>: \<open>os i n\<close> is the answer to the \<open>i\<close>-th call of \<open>send\<close> with \<open>n\<close> bytes, which
  takes at most these. The result is the return value and the bytes the system took.
\<close>

partial_function (option) sendLoop :: "(nat \<Rightarrow> nat \<Rightarrow> send_result) \<Rightarrow> nat \<Rightarrow> string \<Rightarrow> (bool \<times> string) option" where
  "sendLoop os i data =
     (if data = [] then Some (True, [])
      else (case os i (length data) of
              SendError \<Rightarrow> Some (False, [])
            | Interrupted \<Rightarrow> sendLoop os (Suc i) data
            | Sent n \<Rightarrow> Option.bind (sendLoop os (Suc i) (drop n data)) (\<lambda>(ok, out). Some (ok, take n data @ out))))"

definition sendResponse :: "(nat \<Rightarrow> nat \<Rightarrow> send_result) \<Rightarrow> string \<Rightarrow> (bool \<times> string) option" where
  "sendResponse os data = sendLoop os 0 data"

definition partly_sent :: "string \<Rightarrow> bool \<times> string \<Rightarrow> bool" where
  "partly_sent data r \<longleftrightarrow> prefix (snd r) data \<and> (fst r \<longleftrightarrow> snd r = data)"

lemma partly_sent_step:
  assumes "partly_sent (drop n data) r"
  shows "partly_sent data (fst r, take n data @ snd r)"
proof -
  have "prefix (take n data @ snd r) (take n data @ drop n data)" "take n data @ snd r = take n data @ drop n data \<longleftrightarrow> fst r"
    using assms by (simp_all only: partly_sent_def same_prefix_prefix same_append_eq)
  then show ?thesis by (simp add: partly_sent_def)
qed

lemma sendLoop_partly_sent: "sendLoop os i data = Some r \<Longrightarrow> partly_sent data r"
proof (rule sendLoop.raw_induct [of "\<lambda>os i data r. partly_sent data r"])
  fix loop :: "(nat \<Rightarrow> nat \<Rightarrow> send_result) \<Rightarrow> nat \<Rightarrow> string \<Rightarrow> (bool \<times> string) option" and os i data r
  assume IH: "\<And>os i data r. loop os i data = Some r \<Longrightarrow> partly_sent data r"
    and step: "(if data = [] then Some (True, [])
      else case os i (length data) of
             Sent n \<Rightarrow> Option.bind (loop os (Suc i) (drop n data)) (\<lambda>(ok, out). Some (ok, take n data @ out))
           | Interrupted \<Rightarrow> loop os (Suc i) data
           | SendError \<Rightarrow> Some (False, [])) = Some r"
  show "partly_sent data r"
  proof (cases "data = []")
    case False
    show ?thesis
    proof (cases "os i (length data)")
      case (Sent n)
      then obtain r' where "loop os (Suc i) (drop n data) = Some r'" "r = (fst r', take n data @ snd r')"
        using step False by (auto simp: bind_eq_Some_conv)
      then show ?thesis using IH partly_sent_step by simp
    qed (use step False IH in \<open>auto simp: partly_sent_def\<close>)
  qed (use step in \<open>auto simp: partly_sent_def\<close>)
qed

text \<open>
  A connection that works: no call fails, a call takes no more than it is given, and again and again a
  call takes something.
\<close>

definition reliable :: "(nat \<Rightarrow> nat \<Rightarrow> send_result) \<Rightarrow> bool" where
  "reliable os \<longleftrightarrow> (\<forall>i n. os i n \<noteq> SendError) \<and> (\<forall>i n m. os i n = Sent m \<longrightarrow> m \<le> n) \<and>
     (\<forall>i. \<exists>j\<ge>i. \<forall>n>0. \<exists>m>0. os j n = Sent m)"

lemma sendLoop_delivers:
  assumes "reliable os"
  shows "sendLoop os i data = Some (True, data)"
proof (induction "length data" arbitrary: i data rule: less_induct)
  case (less data)
  have "\<exists>j\<ge>i. \<forall>n>0. \<exists>m>0. os j n = Sent m" using assms by (simp add: reliable_def)
  then obtain j where j: "i \<le> j" "\<forall>n>0. \<exists>m>0. os j n = Sent m" by blast
  then show ?case
  proof (induction i rule: inc_induct)
    case base
    show ?case
    proof (cases "data = []")
      case False
      then obtain m where "m > 0" "os j (length data) = Sent m" using base by (metis length_greater_0_conv)
      then show ?thesis using less [of "drop m data" "Suc j"] False by (subst sendLoop.simps) simp
    qed (simp add: sendLoop.simps)
  next
    case (step k)
    show ?case
    proof (cases "os k (length data)")
      case (Sent m)
      show ?thesis
      proof (cases "m = 0 \<or> data = []")
        case True
        then show ?thesis using step Sent by (subst sendLoop.simps) auto
      next
        case False
        then show ?thesis using less [of "drop m data" "Suc k"] Sent by (subst sendLoop.simps) simp
      qed
    next
      case Interrupted
      then show ?thesis using step by (subst sendLoop.simps) auto
    next
      case SendError
      then show ?thesis using assms by (simp add: reliable_def)
    qed
  qed
qed

section \<open>Accepting\<close>

lemma acceptLoop_until:
  "\<not> flag (i + k) \<Longrightarrow> \<forall>j<k. flag (i + j) \<Longrightarrow>
     acceptLoop flag accepted i = Some (filter (\<lambda>fd. fd \<ge> 0) (map accepted [i..<i + k]))"
proof (induction k arbitrary: i)
  case 0
  then show ?case by (subst acceptLoop.simps) simp
next
  case (Suc k)
  have "flag i" using Suc.prems(2) [rule_format, of 0] by simp
  moreover have "\<forall>j<k. flag (Suc i + j)" using Suc.prems(2) by (metis Suc_less_eq add_Suc_shift)
  then have "acceptLoop flag accepted (Suc i) = Some (filter (\<lambda>fd. fd \<ge> 0) (map accepted [Suc i..<Suc i + k]))"
    using Suc.IH [of "Suc i"] Suc.prems(1) by simp
  moreover have "[i..<i + Suc k] = i # [Suc i..<Suc i + k]" by (simp add: upt_conv_Cons del: upt_Suc)
  ultimately show ?case by (subst acceptLoop.simps) (simp del: upt_Suc)
qed

lemma acceptLoop_returns: "acceptLoop flag accepted i = Some fds \<Longrightarrow> \<exists>k. \<not> flag k"
proof (rule acceptLoop.raw_induct [of "\<lambda>flag accepted i fds. \<exists>k. \<not> flag k"])
qed (auto simp: bind_eq_Some_conv split: if_splits)

section \<open>Properties\<close>

text \<open>
  C38: a response reaches its client whole: what the system has taken when \<open>sendResponse\<close> returns is an
  initial part of the response, all of it exactly when the call reports success; and on a connection
  that keeps working, with partial sends and interruptions, the call does return and all bytes went out.
\<close>

theorem response_sent_whole:
  "(sendResponse os data = Some (ok, out) \<longrightarrow> prefix out data \<and> (ok \<longleftrightarrow> out = data)) \<and>
   (reliable os \<longrightarrow> sendResponse os data = Some (True, data))"
  using sendLoop_partly_sent [of os 0 data "(ok, out)"] sendLoop_delivers [of os 0 data]
  by (simp add: sendResponse_def partly_sent_def)

text \<open>One byte at a time, every second call interrupted.\<close>

definition slow_line :: "nat \<Rightarrow> nat \<Rightarrow> send_result" where
  "slow_line i n = (if even i then Interrupted else Sent (min 1 n))"

theorem response_sent_whole_witness: "sendResponse slow_line ''PONG'' = Some (True, ''PONG'')"
proof -
  have "\<exists>j\<ge>i. \<forall>n>0. \<exists>m>0. slow_line j n = Sent m" for i
    by (rule exI [of _ "2 * i + 1"]) (simp add: slow_line_def)
  then have "reliable slow_line" by (simp add: reliable_def slow_line_def)
  then show ?thesis using response_sent_whole [of slow_line "''PONG''"] by blast
qed


definition sample_net :: net_io where
  "sample_net = \<lparr>net_socket = 3, net_setsockopt_ok = True, net_inet_pton = \<lambda>_. None, net_bind_ok = \<lambda>_. True, net_listen_ok = True\<rparr>"


end
