(* ===== verification/Workers.thy ===== *)
theory Workers
  imports Serving
begin

text \<open>
  The threads of the background workers (\<open>src/swiftcache/src/core/ExpiryWorker.cpp\<close> and
  \<open>SnapshotWorker.cpp\<close>): starting and stopping, and the loops they run. The work of one round is in
  \<open>Serving\<close>. What the other threads do between two rounds is an argument of the loops, as are the
  readings of the flag \<open>running_\<close>.
\<close>

section \<open>Starting and stopping\<close>

text \<open>
  The flag and whether \<open>worker_\<close> holds a thread. Assigning a new thread to one that has not been joined
  ends the process; \<open>join\<close> waits for the loop below to return.
\<close>

record worker =
  wk_running :: bool
  wk_joinable :: bool

definition new_worker :: worker where
  "new_worker = \<lparr>wk_running = False, wk_joinable = False\<rparr>"

definition worker_start :: "worker \<Rightarrow> worker outcome" where
  "worker_start wk =
     (if wk_running wk then Inr wk
      else if wk_joinable wk then Inl ThreadOverwritten
      else Inr (wk\<lparr>wk_running := True, wk_joinable := True\<rparr>))"

definition worker_stop :: "worker \<Rightarrow> worker" where
  "worker_stop wk =
     (let wk' = wk\<lparr>wk_running := False\<rparr>
      in if wk_joinable wk' then wk'\<lparr>wk_joinable := False\<rparr> else wk')"

text \<open>A sequence of calls; \<open>True\<close> is \<open>start\<close> and \<open>False\<close> is \<open>stop\<close>, which is also the destructor.\<close>

fun worker_calls :: "bool list \<Rightarrow> worker \<Rightarrow> worker outcome" where
  "worker_calls [] wk = Inr wk"
| "worker_calls (c # cs) wk = and_then (if c then worker_start wk else Inr (worker_stop wk)) (worker_calls cs)"

definition in_step :: "worker \<Rightarrow> bool" where
  "in_step wk \<longleftrightarrow> wk_joinable wk = wk_running wk"

lemma worker_calls_in_step:
  "in_step wk \<Longrightarrow> \<exists>wk'. worker_calls cs wk = Inr wk' \<and> in_step wk' \<and>
     wk_running wk' = (if cs = [] then wk_running wk else last cs)"
proof (induction cs arbitrary: wk)
  case (Cons c cs)
  let ?wk1 = "\<lparr>wk_running = c, wk_joinable = c\<rparr>"
  have "(if c then worker_start wk else Inr (worker_stop wk)) = Inr ?wk1"
    using Cons.prems by (cases wk; cases c) (auto simp: worker_start_def worker_stop_def in_step_def Let_def)
  moreover have "in_step ?wk1" by (simp add: in_step_def)
  ultimately show ?case using Cons.IH [of ?wk1] by auto
qed simp

section \<open>The loops\<close>

partial_function (option) expiry_run :: "(nat \<Rightarrow> bool) \<Rightarrow> (nat \<Rightarrow> nat \<Rightarrow> env) \<Rightarrow> (nat \<Rightarrow> DataStore list \<Rightarrow> DataStore list) \<Rightarrow> nat
    \<Rightarrow> DataStore list \<Rightarrow> DataStore list option" where
  "expiry_run alive ess others i stores =
     (if \<not> alive i then Some stores
      else expiry_run alive ess others (Suc i) (expiry_round (ess i) 0 (others i stores)))"

text \<open>
  The snapshot worker reads the flag at the head of its loop and again after the wait, which reports
  whether it ended because of \<open>stop\<close>. Without a snapshot file there is no worker.
\<close>

partial_function (option) snapshot_run :: "(nat \<Rightarrow> bool) \<Rightarrow> (nat \<Rightarrow> bool) \<Rightarrow> (nat \<Rightarrow> bool) \<Rightarrow> (nat \<Rightarrow> world)
    \<Rightarrow> (nat \<Rightarrow> TcpServer \<Rightarrow> TcpServer) \<Rightarrow> nat \<Rightarrow> TcpServer \<Rightarrow> TcpServer outcome option" where
  "snapshot_run alive stopped again ws others i srv =
     (if \<not> alive i then Some (Inr srv)
      else if stopped i \<or> \<not> again i then Some (Inr (others i srv))
      else (case srv_snapshot (others i srv) of
              None \<Rightarrow> Some (Inr (others i srv))
            | Some file \<Rightarrow>
                (case snapshot_round (ws i) file (others i srv) of
                   Inl f \<Rightarrow> Some (Inl f)
                 | Inr srv' \<Rightarrow> snapshot_run alive stopped again ws others (Suc i) srv')))"

text \<open>
  Once the flag is cleared, the loops return; and they keep what their rounds and the other threads keep.
\<close>

lemma expiry_run_returns:
  assumes "\<not> alive k" "i \<le> k" "P stores"
    and "\<And>i st. P st \<Longrightarrow> P (others i st)" "\<And>i st. P st \<Longrightarrow> P (expiry_round (ess i) 0 st)"
  shows "\<exists>stores'. expiry_run alive ess others i stores = Some stores' \<and> P stores'"
  using assms(2,3)
proof (induction i arbitrary: stores rule: inc_induct)
  case base
  then show ?case using assms(1) by (subst expiry_run.simps) simp
next
  case (step i)
  then show ?case using assms(4,5) by (subst expiry_run.simps) simp
qed

lemma snapshot_run_returns:
  assumes "\<not> alive k" "i \<le> k" "P srv"
    and "\<And>i sv. P sv \<Longrightarrow> P (others i sv)"
    and "\<And>i file sv sv'. P sv \<Longrightarrow> snapshot_round (ws i) file sv = Inr sv' \<Longrightarrow> P sv'"
  shows "\<exists>r. snapshot_run alive stopped again ws others i srv = Some r \<and> (\<forall>srv'. r = Inr srv' \<longrightarrow> P srv')"
  using assms(2,3)
proof (induction i arbitrary: srv rule: inc_induct)
  case base
  then show ?case using assms(1) by (subst snapshot_run.simps) simp
next
  case (step i)
  show ?case
  proof (cases "alive i \<and> \<not> stopped i \<and> again i")
    case True
    show ?thesis
    proof (cases "srv_snapshot (others i srv)")
      case None
      then show ?thesis using True step.prems assms(4) by (subst snapshot_run.simps) simp
    next
      case (Some f)
      then show ?thesis using True step assms(4) assms(5) [OF assms(4)]
        by (cases "snapshot_round (ws i) f (others i srv)"; subst snapshot_run.simps) auto
    qed
  qed (use step.prems assms(4) in \<open>subst snapshot_run.simps; auto\<close>)
qed

section \<open>Properties\<close>



end
