(* ===== verification/Program.thy ===== *)
theory Program
  imports Startup Sockets Workers
begin

text \<open>
  The function \<open>main\<close> of \<open>src/swiftcache/src/main.cpp\<close> as a whole: the configuration, the start from the
  files, the background workers, the listening socket, the accepting loop, and the end.
\<close>

section \<open>The main function\<close>

text \<open>The state the process ends with, and its exit code.\<close>

record ending =
  exit_code :: int
  end_expiry :: "worker option"
  end_snapshot :: "worker option"
  end_listener :: listener
  end_handlers :: "int list"

definition exit_early :: "int \<Rightarrow> ending" where
  "exit_early c = \<lparr>exit_code = c, end_expiry = None, end_snapshot = None, end_listener = new_listener, end_handlers = []\<rparr>"

text \<open>
  What the outside contributes: the configuration files, the files and clocks the start meets, the signals
  \<open>SIGINT\<close> and \<open>SIGTERM\<close> that come before \<open>main\<close> reads \<open>g_shutdownRequested\<close>, and the answers of the system calls on
  sockets.
\<close>

record outside =
  out_files :: "string \<Rightarrow> string option"
  out_boot :: "ServerConfig \<Rightarrow> boot"
  out_signals :: "int list"
  out_net :: net_io
  out_accept :: "nat \<Rightarrow> int"

text \<open>The handler of both signals, and the flag after the signals that came.\<close>

definition handleSignal :: "int \<Rightarrow> bool \<Rightarrow> bool" where
  "handleSignal sig requested = True"

definition g_shutdownRequested :: "int list \<Rightarrow> bool" where
  "g_shutdownRequested sigs = fold handleSignal sigs False"

lemma g_shutdownRequested_iff: "g_shutdownRequested sigs \<longleftrightarrow> sigs \<noteq> []"
proof -
  have "fold handleSignal sigs True" by (induction sigs) (simp_all add: handleSignal_def)
  then show ?thesis by (cases sigs) (simp_all add: g_shutdownRequested_def handleSignal_def)
qed

text \<open>
  The call of \<open>server.start()\<close>. The only statement of the program that clears \<open>running_\<close> is in \<open>stop\<close>, which
  only \<open>main\<close> calls, and not after \<open>start\<close>; every reading in the accepting loop is therefore the value \<open>start\<close> left.
\<close>

definition serve :: "outside \<Rightarrow> string \<Rightarrow> (bool \<times> listener \<times> int list) option" where
  "serve out hst =
     (case start (out_net out) hst new_listener of
        (False, l) \<Rightarrow> Some (False, l, [])
      | (True, l) \<Rightarrow> Option.bind (acceptLoop (\<lambda>_. running l) (out_accept out) 0) (\<lambda>fds. Some (True, l, fds)))"

definition run_server :: "outside \<Rightarrow> ServerConfig \<Rightarrow> ending outcome option" where
  "run_server out config =
     (case and_then (worker_start new_worker) (\<lambda>ex.
             and_then (if snapshotEnabled config then and_then (worker_start new_worker) (\<lambda>sn. Inr (Some sn)) else Inr None)
               (\<lambda>sn. Inr (ex, sn))) of
        Inl f \<Rightarrow> Some (Inl f)
      | Inr (ex, sn) \<Rightarrow>
          let finish = (\<lambda>c l fds. Some (Inr \<lparr>exit_code = c, end_expiry = Some (worker_stop ex),
                          end_snapshot = map_option worker_stop sn, end_listener = l, end_handlers = fds\<rparr>))
          in if g_shutdownRequested (out_signals out) then finish 0 (stop new_listener) []
             else Option.bind (serve out (host config)) (\<lambda>(started, l, fds). finish (if started then 0 else 1) l fds))"

definition main :: "outside \<Rightarrow> string list \<Rightarrow> ServerConfig \<Rightarrow> ending outcome option" where
  "main out args defaults =
     (case configure (out_files out) args defaults of
        CliError message \<Rightarrow> Some (Inr (exit_early 1))
      | CliExit \<Rightarrow> Some (Inr (exit_early 0))
      | CliRun config \<Rightarrow>
          (case startup (out_boot out config) config of
             Inl f \<Rightarrow> Some (Inl f)
           | Inr None \<Rightarrow> Some (Inr (exit_early 1))
           | Inr (Some srv) \<Rightarrow> run_server out config))"

section \<open>How it ends\<close>

text \<open>No thread is left, and the listening socket is closed.\<close>

definition clean_ending :: "ending \<Rightarrow> bool" where
  "clean_ending e \<longleftrightarrow>
     (\<forall>wk. end_expiry e = Some wk \<or> end_snapshot e = Some wk \<longrightarrow> \<not> wk_running wk \<and> \<not> wk_joinable wk) \<and>
     closed (end_listener e) = opened (end_listener e) \<and> \<not> running (end_listener e)"

lemma clean_exit_early: "clean_ending (exit_early c)"
  by (simp add: clean_ending_def exit_early_def new_listener_def)

lemma start_listens:
  "start io h new_listener = (ok, l) \<Longrightarrow> running l = ok \<and> (\<not> ok \<longrightarrow> closed l = opened l)"
  by (auto simp: start_def give_up_def closeIfOpen_def new_listener_def Let_def split: if_splits option.splits)

definition listens :: "outside \<Rightarrow> ServerConfig \<Rightarrow> bool" where
  "listens out config \<longleftrightarrow> \<not> g_shutdownRequested (out_signals out) \<and> fst (start (out_net out) (host config) new_listener)"

lemma run_server_listening: "listens out config \<Longrightarrow> run_server out config = None"
proof -
  assume *: "listens out config"
  then obtain l where l: "start (out_net out) (host config) new_listener = (True, l)"
    by (metis listens_def prod.collapse)
  then have "acceptLoop (\<lambda>_. running l) (out_accept out) 0 = None"
    using start_listens [OF l] acceptLoop_returns by (metis not_None_eq)
  then show ?thesis using * l
    by (simp add: run_server_def serve_def listens_def worker_start_def new_worker_def)
qed

lemma run_server_ending:
  assumes "\<not> listens out config"
  shows "\<exists>e. run_server out config = Some (Inr e) \<and> clean_ending e \<and> exit_code e = (if g_shutdownRequested (out_signals out) then 0 else 1)"
proof (cases "g_shutdownRequested (out_signals out)")
  case True
  then show ?thesis
    by (auto simp: run_server_def worker_start_def new_worker_def worker_stop_def clean_ending_def stop_def closeIfOpen_def
        new_listener_def Let_def)
next
  case False
  then obtain l where l: "start (out_net out) (host config) new_listener = (False, l)"
    using assms by (cases "start (out_net out) (host config) new_listener") (simp add: listens_def)
  then show ?thesis using False start_listens [OF l]
    by (auto simp: run_server_def serve_def worker_start_def new_worker_def worker_stop_def clean_ending_def Let_def)
qed

section \<open>Properties\<close>


text \<open>A server on a free port; the same with a port that is taken; and a signal that came early.\<close>

definition sample_outside :: "bool \<Rightarrow> bool \<Rightarrow> outside" where
  "sample_outside signalled free =
     \<lparr>out_files = \<lambda>_. None, out_boot = \<lambda>_. first_boot\<lparr>boot_aof := None\<rparr>, out_signals = (if signalled then [15] else []),
      out_net = sample_net\<lparr>net_bind_ok := \<lambda>_. free\<rparr>, out_accept = \<lambda>i. int i + 4\<rparr>"


end
