(* ===== verification/AtomicMetrics.thy ===== *)
theory AtomicMetrics
  imports ServerMetrics
begin

text \<open>
  The counters of connected clients at the level of the atomic operations that
  \<open>src/swiftcache/src/core/ServerMetrics.cpp\<close> performs: many threads run \<open>clientConnected\<close> and
  \<open>clientDisconnected\<close> at the same time, and between any two operations of one thread the others can act. The
  accesses are relaxed, so a load may return any value the variable has had; an exchange that
  succeeds has compared with the latest one, and may also fail without a reason.
\<close>

section \<open>Operations\<close>

text \<open>
  Where a thread is: before \<open>clientConnected\<close>; with the sum it obtained; with the sum and the peak it
  has read; after \<open>clientConnected\<close>; after \<open>clientDisconnected\<close>.
\<close>

datatype phase = Before | Counted "64 word" | Compared "64 word" "64 word" | Inside | Gone

text \<open>The values the peak has had, the latest first.\<close>

record counters =
  ctr_connected :: "64 word"
  ctr_peaks :: "64 word list"
  ctr_phase :: "nat \<Rightarrow> phase"

definition initial_counters :: counters where
  "initial_counters = \<lparr>ctr_connected = 0, ctr_peaks = [0], ctr_phase = \<lambda>_. Before\<rparr>"

text \<open>
  The operations of thread \<open>t\<close>; the index says which of the values is read. The exchange of the loop is two
  actions, one for its success and one for its failure, which reads the peak again.
\<close>

datatype atomic_action =
    FetchAdd nat | LoadPeak nat nat | LeaveLoop nat | ExchangeOk nat | ExchangeFailed nat nat | FetchSub nat

definition set_phase :: "nat \<Rightarrow> phase \<Rightarrow> counters \<Rightarrow> counters" where
  "set_phase t p s = s\<lparr>ctr_phase := (ctr_phase s)(t := p)\<rparr>"

fun atomic_step :: "atomic_action \<Rightarrow> counters \<Rightarrow> counters option" where
  "atomic_step (FetchAdd t) s =
     (case ctr_phase s t of
        Before \<Rightarrow> Some (set_phase t (Counted (ctr_connected s + 1)) (s\<lparr>ctr_connected := ctr_connected s + 1\<rparr>))
      | _ \<Rightarrow> None)"
| "atomic_step (LoadPeak t i) s =
     (case ctr_phase s t of
        Counted c \<Rightarrow> if i < length (ctr_peaks s) then Some (set_phase t (Compared c (ctr_peaks s ! i)) s) else None
      | _ \<Rightarrow> None)"
| "atomic_step (LeaveLoop t) s =
     (case ctr_phase s t of
        Compared c p \<Rightarrow> if c > p then None else Some (set_phase t Inside s)
      | _ \<Rightarrow> None)"
| "atomic_step (ExchangeOk t) s =
     (case ctr_phase s t of
        Compared c p \<Rightarrow>
          if c > p \<and> p = hd (ctr_peaks s) then Some (set_phase t Inside (s\<lparr>ctr_peaks := c # ctr_peaks s\<rparr>)) else None
      | _ \<Rightarrow> None)"
| "atomic_step (ExchangeFailed t i) s =
     (case ctr_phase s t of
        Compared c p \<Rightarrow>
          if c > p \<and> i < length (ctr_peaks s) then Some (set_phase t (Compared c (ctr_peaks s ! i)) s) else None
      | _ \<Rightarrow> None)"
| "atomic_step (FetchSub t) s =
     (case ctr_phase s t of
        Inside \<Rightarrow> Some (set_phase t Gone (s\<lparr>ctr_connected := ctr_connected s - 1\<rparr>))
      | _ \<Rightarrow> None)"

fun atomic_run :: "atomic_action list \<Rightarrow> counters \<Rightarrow> counters option" where
  "atomic_run [] s = Some s"
| "atomic_run (a # as) s = Option.bind (atomic_step a s) (atomic_run as)"

section \<open>The order of the calls\<close>

text \<open>A call takes effect when it changes the number of connected clients.\<close>

fun event_of :: "atomic_action \<Rightarrow> metrics_event list" where
  "event_of (FetchAdd t) = [Connected]"
| "event_of (FetchSub t) = [Disconnected]"
| "event_of _ = []"

abbreviation events_of :: "atomic_action list \<Rightarrow> metrics_event list" where
  "events_of as \<equiv> concat (map event_of as)"

fun sum_of :: "phase \<Rightarrow> 64 word option" where
  "sum_of (Counted c) = Some c"
| "sum_of (Compared c p) = Some c"
| "sum_of _ = None"

definition quiet :: "counters \<Rightarrow> bool" where
  "quiet s \<longleftrightarrow> (\<forall>t. sum_of (ctr_phase s t) = None)"

text \<open>
  What holds between the counters and the counters \<open>m\<close> of the calls made one after the other: the
  peak can lag behind, but then the thread that has to raise it is still in its loop.
\<close>

definition lags :: "counters \<Rightarrow> ServerMetrics \<Rightarrow> bool" where
  "lags s m \<longleftrightarrow>
     ctr_connected s = connectedClients m \<and> ctr_peaks s \<noteq> [] \<and>
     (\<forall>p\<in>set (ctr_peaks s). p \<le> hd (ctr_peaks s)) \<and> hd (ctr_peaks s) \<le> peakConnectedClients m \<and>
     (\<forall>t c. sum_of (ctr_phase s t) = Some c \<longrightarrow> c \<le> peakConnectedClients m) \<and>
     (\<forall>t c p. ctr_phase s t = Compared c p \<longrightarrow> p \<in> set (ctr_peaks s)) \<and>
     (hd (ctr_peaks s) = peakConnectedClients m \<or> (\<exists>t. sum_of (ctr_phase s t) = Some (peakConnectedClients m)))"

lemma lags_initial: "lags initial_counters initial_metrics"
  by (simp add: lags_def initial_counters_def initial_metrics_def)

lemma lags_same_sum:
  assumes "lags s m" "sum_of ph = sum_of (ctr_phase s t)" "\<And>c p. ph = Compared c p \<Longrightarrow> p \<in> set (ctr_peaks s)"
  shows "lags (set_phase t ph s) m"
  using assms unfolding lags_def set_phase_def by (simp; metis)

lemma lags_connected:
  assumes "lags s m" "ctr_phase s t = Before"
  shows "lags (set_phase t (Counted (ctr_connected s + 1)) (s\<lparr>ctr_connected := ctr_connected s + 1\<rparr>)) (clientConnected m)"
proof -
  let ?c = "connectedClients m + 1"
  have "sum_of (ctr_phase s u) = Some c \<Longrightarrow> u \<noteq> t \<and> c \<le> peakConnectedClients m" for u c
    using assms by (auto simp: lags_def)
  note others = this
  show ?thesis
  proof (cases "peakConnectedClients m < ?c")
    case True
    then have "c \<le> ?c" if "c \<le> peakConnectedClients m" for c using that by simp
    then show ?thesis using assms others True by (auto simp: lags_def set_phase_def clientConnected_def Let_def)
  next
    case False
    then show ?thesis using assms others unfolding lags_def set_phase_def clientConnected_def Let_def
      by (auto simp: not_less; metis)
  qed
qed

lemma lags_disconnected:
  assumes "lags s m" "ctr_phase s t = Inside"
  shows "lags (set_phase t Gone (s\<lparr>ctr_connected := ctr_connected s - 1\<rparr>)) (clientDisconnected m)"
  using assms unfolding lags_def set_phase_def clientDisconnected_def
  by (auto; metis option.distinct(1) sum_of.simps(4))

lemma lags_leave:
  assumes "lags s m" "ctr_phase s t = Compared c p" "c \<le> p"
  shows "lags (set_phase t Inside s) m"
proof (cases "hd (ctr_peaks s) = peakConnectedClients m")
  case False
  then obtain u where u: "sum_of (ctr_phase s u) = Some (peakConnectedClients m)" using assms(1) by (auto simp: lags_def)
  have "c \<le> hd (ctr_peaks s)" "hd (ctr_peaks s) \<le> peakConnectedClients m"
    using assms by (auto simp: lags_def intro: order.trans)
  then have "u \<noteq> t" using u assms(2) False by auto
  then show ?thesis using assms(1) u by (auto simp: lags_def set_phase_def)
qed (use assms in \<open>auto simp: lags_def set_phase_def\<close>)

lemma lags_exchange:
  assumes "lags s m" "ctr_phase s t = Compared c p" "p < c" "p = hd (ctr_peaks s)"
  shows "lags (set_phase t Inside (s\<lparr>ctr_peaks := c # ctr_peaks s\<rparr>)) m"
proof -
  have c: "c \<le> peakConnectedClients m" using assms(1,2) by (metis lags_def sum_of.simps(2))
  then have "hd (ctr_peaks s) \<noteq> peakConnectedClients m" using assms(3,4) by auto
  then obtain u where "sum_of (ctr_phase s u) = Some (peakConnectedClients m)" using assms(1) by (auto simp: lags_def)
  moreover have "\<forall>q\<in>set (ctr_peaks s). q \<le> c" using assms(1,3,4) by (auto simp: lags_def intro: order.trans less_imp_le)
  ultimately show ?thesis using assms(1,2) c by (cases "u = t") (auto simp: lags_def set_phase_def)
qed

lemma lags_step:
  assumes "lags s m" "atomic_step a s = Some s'"
  shows "lags s' (run_steps metrics_step (event_of a) m)"
proof (cases a)
  case (LoadPeak t i)
  then show ?thesis using assms by (auto split: phase.splits if_splits intro!: lags_same_sum)
next
  case (ExchangeFailed t i)
  then show ?thesis using assms by (auto split: phase.splits if_splits intro!: lags_same_sum)
qed (use assms in \<open>auto simp: not_less lags_connected lags_disconnected lags_leave lags_exchange split: phase.splits if_splits\<close>)

lemma lags_run:
  "lags s m \<Longrightarrow> atomic_run as s = Some s' \<Longrightarrow> lags s' (run_steps metrics_step (events_of as) m)"
  by (induction as arbitrary: s m) (auto simp: bind_eq_Some_conv run_steps_append dest: lags_step)

lemma lags_quiet: "lags s m \<Longrightarrow> quiet s \<Longrightarrow> hd (ctr_peaks s) = peakConnectedClients m"
  by (auto simp: lags_def quiet_def)

section \<open>Properties\<close>

text \<open>
  C22: the counters of clients are right under every interleaving of the threads, although the accesses are
  relaxed and an exchange can fail at any time: the number of connected clients is at every moment that of
  the calls made one after the other, in the order in which they changed it; the peak never
  exceeds that of those calls, and equals it whenever no thread is between the two counters.
\<close>

theorem atomic_counters_linearise:
  assumes "atomic_run as initial_counters = Some s"
  shows "let m = run_steps metrics_step (events_of as) initial_metrics in
    ctr_connected s = connectedClients m \<and> hd (ctr_peaks s) \<le> peakConnectedClients m \<and>
    (quiet s \<longrightarrow> hd (ctr_peaks s) = peakConnectedClients m)"
proof -
  note * = lags_run [OF lags_initial assms]
  then show ?thesis using lags_quiet [OF *] unfolding lags_def Let_def by blast
qed

text \<open>
  Two threads: the second is counted while the first has read the peak; the exchange of the first
  succeeds, that of the second fails once on a stale value.
\<close>

definition race :: "atomic_action list" where
  "race = [FetchAdd 0, LoadPeak 0 0, FetchAdd 1, LoadPeak 1 0, ExchangeOk 0, ExchangeFailed 1 1, ExchangeFailed 1 0,
     ExchangeOk 1, FetchSub 0]"

theorem atomic_counters_linearise_witness:
  "\<exists>s. atomic_run race initial_counters = Some s \<and> ctr_connected s = 1 \<and> hd (ctr_peaks s) = 2"
proof -
  let ?s = "\<lparr>ctr_connected = 1, ctr_peaks = [2, 1, 0], ctr_phase = (\<lambda>_. Before)(0 := Gone, 1 := Inside)\<rparr>"
  have s: "atomic_run race initial_counters = Some ?s"
    by (simp add: race_def initial_counters_def set_phase_def fun_eq_iff)
  have "quiet ?s" by (simp add: quiet_def)
  have "run_steps metrics_step (events_of race) initial_metrics = initial_metrics\<lparr>connectedClients := 1, peakConnectedClients := 2\<rparr>"
    by (simp add: race_def initial_metrics_def clientConnected_def clientDisconnected_def)
  then show ?thesis using atomic_counters_linearise [OF s] s \<open>quiet ?s\<close> by simp
qed

end
