(* ===== verification/LockOrder.thy ===== *)
theory LockOrder
  imports Prelude
begin

text \<open>
  Threads that take and give back mutexes: a thread is the list of lock operations it still has to
  perform, and the operations of different threads interleave. The interface \<open>lock_order\<close> is the discipline of taking
  locks in increasing rank; the lemmas are what follows from it, mutual exclusion and the absence of
  deadlock.
\<close>

section \<open>Threads and their steps\<close>

text \<open>
  \<open>Lock ls\<close> takes several locks at once, as \<open>std::scoped_lock\<close> does: it never waits while it has some of them, and
  goes on when all are free.
\<close>

datatype 'l lock_action = Lock "'l list" | Unlock "'l list"

record 'l thread =
  held :: "'l list"
  todo :: "'l lock_action list"

text \<open>The critical section of a guard: the locks are held while the body runs.\<close>

definition guarded :: "'l list \<Rightarrow> 'l lock_action list \<Rightarrow> 'l lock_action list" where
  "guarded ls body = Lock ls # body @ [Unlock ls]"

definition is_free :: "'l thread list \<Rightarrow> 'l \<Rightarrow> bool" where
  "is_free ts l \<longleftrightarrow> (\<forall>t\<in>set ts. l \<notin> set (held t))"

text \<open>One operation of thread \<open>i\<close>; \<open>None\<close> when it has finished or has to wait.\<close>

definition advance :: "nat \<Rightarrow> 'l thread list \<Rightarrow> 'l thread list option" where
  "advance i ts =
     (if length ts \<le> i then None
      else (case todo (ts ! i) of
              [] \<Rightarrow> None
            | Lock ls # p \<Rightarrow>
                if list_all (is_free ts) ls then Some (ts[i := \<lparr>held = ls @ held (ts ! i), todo = p\<rparr>]) else None
            | Unlock ls # p \<Rightarrow> Some (ts[i := \<lparr>held = filter (\<lambda>l. l \<notin> set ls) (held (ts ! i)), todo = p\<rparr>])))"

definition launch :: "'l lock_action list list \<Rightarrow> 'l thread list" where
  "launch ps = map (\<lambda>p. \<lparr>held = [], todo = p\<rparr>) ps"

inductive interleaved :: "'l thread list \<Rightarrow> 'l thread list \<Rightarrow> bool" where
  start: "interleaved ts ts"
| step: "interleaved ts ts' \<Longrightarrow> advance i ts' = Some ts'' \<Longrightarrow> interleaved ts ts''"

text \<open>The run in which the threads move in the given order.\<close>

fun schedule :: "nat list \<Rightarrow> 'l thread list \<Rightarrow> 'l thread list option" where
  "schedule [] ts = Some ts"
| "schedule (i # is) ts = Option.bind (advance i ts) (schedule is)"

definition finished :: "'l thread list \<Rightarrow> bool" where
  "finished ts \<longleftrightarrow> (\<forall>t\<in>set ts. todo t = [])"

definition work :: "'l thread list \<Rightarrow> nat" where
  "work ts = sum_list (map (\<lambda>t. length (todo t)) ts)"

definition exclusive :: "'l thread list \<Rightarrow> bool" where
  "exclusive ts \<longleftrightarrow> (\<forall>i<length ts. \<forall>j<length ts. i \<noteq> j \<longrightarrow> set (held (ts ! i)) \<inter> set (held (ts ! j)) = {})"

lemma advance_cases:
  assumes "advance i ts = Some ts'"
  obtains (lock) ls p where "i < length ts" "todo (ts ! i) = Lock ls # p" "\<forall>l\<in>set ls. is_free ts l"
      "ts' = ts[i := \<lparr>held = ls @ held (ts ! i), todo = p\<rparr>]"
    | (unlock) ls p where "i < length ts" "todo (ts ! i) = Unlock ls # p"
      "ts' = ts[i := \<lparr>held = filter (\<lambda>l. l \<notin> set ls) (held (ts ! i)), todo = p\<rparr>]"
  using assms
  by (auto simp: advance_def list_all_iff split: if_splits list.splits lock_action.splits)

lemma work_advance: "advance i ts = Some ts' \<Longrightarrow> work ts' < work ts"
proof -
  assume "advance i ts = Some ts'"
  then obtain t where t: "i < length ts" "ts' = ts[i := t]" "length (todo (ts ! i)) = Suc (length (todo t))"
    by (cases rule: advance_cases) auto
  then have ts: "ts = take i ts @ ts ! i # drop (Suc i) ts" by (simp add: id_take_nth_drop)
  have "ts' = take i ts @ t # drop (Suc i) ts" using t(1,2) by (simp add: upd_conv_take_nth_drop)
  then have "work ts' = work (take i ts) + length (todo t) + work (drop (Suc i) ts)" by (simp add: work_def)
  moreover have "work ts = work (take i ts) + length (todo (ts ! i)) + work (drop (Suc i) ts)"
    by (subst ts) (simp add: work_def)
  ultimately show ?thesis using t(3) by simp
qed

lemma exclusive_update:
  assumes "exclusive ts" "i < length ts" "\<And>j. j < length ts \<Longrightarrow> j \<noteq> i \<Longrightarrow> set (held t) \<inter> set (held (ts ! j)) = {}"
  shows "exclusive (ts[i := t])"
  unfolding exclusive_def
proof (intro allI impI)
  fix j k assume "j < length (ts[i := t])" "k < length (ts[i := t])" "j \<noteq> k"
  then show "set (held (ts[i := t] ! j)) \<inter> set (held (ts[i := t] ! k)) = {}"
    using assms by (cases "j = i"; cases "k = i") (auto simp: exclusive_def Int_commute)
qed

lemma exclusive_advance:
  assumes "advance i ts = Some ts'" "exclusive ts"
  shows "exclusive ts'"
proof -
  have disj: "set (held (ts ! i)) \<inter> set (held (ts ! j)) = {}" if "i < length ts" "j < length ts" "j \<noteq> i" for j
    using assms(2) that unfolding exclusive_def by metis
  show ?thesis using assms(1)
  proof (cases rule: advance_cases)
    case (lock ls p)
    have "set ls \<inter> set (held (ts ! j)) = {}" if "j < length ts" for j
      using lock(3) that by (auto simp: is_free_def)
    then show ?thesis unfolding lock(4)
      by (intro exclusive_update) (use assms(2) lock(1) disj in \<open>simp_all add: Int_Un_distrib2\<close>)
  next
    case (unlock ls p)
    then show ?thesis unfolding unlock(3)
      by (intro exclusive_update) (use assms(2) disj in \<open>auto simp: disjoint_iff\<close>)
  qed
qed

lemma interleaved_trans: "interleaved ts' ts'' \<Longrightarrow> interleaved ts ts' \<Longrightarrow> interleaved ts ts''"
  by (induction rule: interleaved.induct) (auto intro: interleaved.step)

lemma schedule_interleaved: "interleaved ts ts' \<Longrightarrow> schedule is ts' = Some ts'' \<Longrightarrow> interleaved ts ts''"
  by (induction "is" arbitrary: ts') (auto simp: bind_eq_Some_conv intro: interleaved.step)

section \<open>The discipline\<close>

text \<open>
  With the locks \<open>h\<close> held, the operations take only locks of higher rank than all they hold, give
  back only locks they hold, and end with none.
\<close>

fun ordered :: "('l \<Rightarrow> nat) \<Rightarrow> 'l list \<Rightarrow> 'l lock_action list \<Rightarrow> bool" where
  "ordered rank h [] \<longleftrightarrow> h = []"
| "ordered rank h (Lock ls # p) \<longleftrightarrow> (\<forall>l\<in>set ls. \<forall>k\<in>set h. rank k < rank l) \<and> ordered rank (ls @ h) p"
| "ordered rank h (Unlock ls # p) \<longleftrightarrow> set ls \<subseteq> set h \<and> ordered rank (filter (\<lambda>l. l \<notin> set ls) h) p"

lemma ordered_append: "ordered rank h p \<Longrightarrow> ordered rank [] q \<Longrightarrow> ordered rank h (p @ q)"
  by (induction rank h p rule: ordered.induct) auto

lemma ordered_concat: "\<forall>p\<in>set ps. ordered rank [] p \<Longrightarrow> ordered rank [] (concat ps)"
  by (induction ps) (auto intro: ordered_append)

lemma filter_own: "set ls \<inter> set h = {} \<Longrightarrow> filter (\<lambda>l. l \<notin> set ls) (ls @ h) = h"
  by (auto simp: filter_empty_conv disjoint_iff intro: filter_True)

lemma ordered_section:
  assumes "\<forall>l\<in>set ls. \<forall>k\<in>set h. rank k < rank l"
  shows "ordered rank h (guarded ls [] @ q) \<longleftrightarrow> ordered rank h q"
proof -
  have "set ls \<inter> set h = {}" using assms by fastforce
  then show ?thesis using assms filter_own [of ls h] by (simp add: guarded_def)
qed

text \<open>A body that is a sequence of sections one level deeper.\<close>

lemma ordered_nested:
  assumes "\<forall>xs\<in>set xss. \<forall>l\<in>set xs. \<forall>k\<in>set ls. rank k < rank l"
  shows "ordered rank [] (guarded ls (concat (map (\<lambda>xs. guarded xs []) xss)))"
proof -
  have "ordered rank ls (concat (map (\<lambda>xs. guarded xs []) xss) @ [Unlock ls])"
    using assms by (induction xss) (simp_all add: ordered_section)
  then show ?thesis by (simp add: guarded_def)
qed

lemma ordered_flat: "ordered rank [] (concat (map (\<lambda>xs. guarded xs []) xss))"
  by (induction xss) (simp_all add: ordered_section)

definition disciplined :: "('l \<Rightarrow> nat) \<Rightarrow> 'l thread list \<Rightarrow> bool" where
  "disciplined rank ts \<longleftrightarrow> (\<forall>t\<in>set ts. ordered rank (held t) (todo t)) \<and> exclusive ts"

lemma ex_highest:
  fixes f :: "'a \<Rightarrow> nat"
  assumes "finite A" "A \<noteq> {}"
  shows "\<exists>x\<in>A. \<forall>y\<in>A. f y \<le> f x"
proof -
  have "Max (f ` A) \<in> f ` A" using assms by simp
  then obtain x where "x \<in> A" "Max (f ` A) = f x" by blast
  moreover have "\<forall>y\<in>A. f y \<le> Max (f ` A)" using assms by simp
  ultimately show ?thesis by auto
qed

locale lock_order =
  fixes rank :: "'l \<Rightarrow> nat"
    and program :: "'l lock_action list \<Rightarrow> bool"
  assumes program_ordered: "program p \<Longrightarrow> ordered rank [] p"
begin

lemma disciplined_launch: "\<forall>p\<in>set ps. program p \<Longrightarrow> disciplined rank (launch ps)"
  by (auto simp: disciplined_def launch_def exclusive_def program_ordered)

lemma disciplined_advance:
  assumes "advance i ts = Some ts'" "disciplined rank ts"
  shows "disciplined rank ts'"
proof -
  have "ordered rank (held (ts ! i)) (todo (ts ! i))" if "i < length ts" using assms(2) that by (simp add: disciplined_def)
  with assms(1) obtain t where t: "ts' = ts[i := t]" "ordered rank (held t) (todo t)"
    by (cases rule: advance_cases) auto
  have "\<forall>x\<in>set ts'. ordered rank (held x) (todo x)"
  proof
    fix x assume "x \<in> set ts'"
    then have "x = t \<or> x \<in> set ts" using set_update_subset_insert [of ts i t] t(1) by blast
    then show "ordered rank (held x) (todo x)" using t(2) assms(2) by (auto simp: disciplined_def)
  qed
  then show ?thesis using assms(2) exclusive_advance [OF assms(1)] by (simp add: disciplined_def)
qed

lemma disciplined_interleaved: "interleaved ts ts' \<Longrightarrow> disciplined rank ts \<Longrightarrow> disciplined rank ts'"
  by (induction rule: interleaved.induct) (auto dest: disciplined_advance)

text \<open>Among the locks that threads wait for there is one of highest rank; its holder can go on.\<close>

lemma no_deadlock:
  assumes "disciplined rank ts" "\<not> finished ts"
  shows "\<exists>i ts'. advance i ts = Some ts'"
proof (rule ccontr)
  assume stuck: "\<not> ?thesis"
  let ?W = "{l. \<exists>t\<in>set ts. \<exists>ls p. todo t = Lock ls # p \<and> l \<in> set ls \<and> \<not> is_free ts l}"
  have wait: "\<exists>ls p l. todo t = Lock ls # p \<and> l \<in> set ls \<and> \<not> is_free ts l" if t: "t \<in> set ts" "todo t \<noteq> []" for t
  proof -
    obtain i where i: "i < length ts" "ts ! i = t" using t(1) by (metis in_set_conv_nth)
    have "advance i ts = None" using stuck by (cases "advance i ts") auto
    show ?thesis
    proof (cases "todo t")
      case (Cons a p)
      then show ?thesis using \<open>advance i ts = None\<close> i
        by (cases a) (auto simp: advance_def list_all_iff split: if_splits)
    qed (use t(2) in simp)
  qed
  have "?W \<subseteq> (\<Union>t\<in>set ts. set (held t))" by (auto simp: is_free_def)
  then have "finite ?W" by (rule finite_subset) simp
  moreover have "?W \<noteq> {}" using assms(2) wait by (fastforce simp: finished_def)
  ultimately obtain l where l: "l \<in> ?W" "\<forall>k\<in>?W. rank k \<le> rank l" using ex_highest [of ?W rank] by blast
  from l obtain u where u: "u \<in> set ts" "l \<in> set (held u)" by (auto simp: is_free_def)
  then have o: "ordered rank (held u) (todo u)" using assms(1) by (simp add: disciplined_def)
  then have "todo u \<noteq> []" using u(2) by auto
  then obtain ls p k where k: "todo u = Lock ls # p" "k \<in> set ls" "\<not> is_free ts k" using wait u(1) by blast
  then have "rank l < rank k" using o u(2) by simp
  moreover have "rank k \<le> rank l" using l(2) k u(1) by blast
  ultimately show False by simp
qed

lemma interleaved_finishes:
  assumes "disciplined rank ts"
  shows "\<exists>ts'. interleaved ts ts' \<and> finished ts'"
  using assms
proof (induction "work ts" arbitrary: ts rule: less_induct)
  case less
  show ?case
  proof (cases "finished ts")
    case False
    then obtain i ts1 where s: "advance i ts = Some ts1" using no_deadlock less.prems by blast
    then obtain ts' where "interleaved ts1 ts'" "finished ts'"
      using less.hyps work_advance disciplined_advance less.prems by blast
    moreover have "interleaved ts ts1" using s by (blast intro: interleaved.intros)
    ultimately show ?thesis by (blast intro: interleaved_trans)
  qed (auto intro: interleaved.start)
qed

end

end
