(* ===== verification/Locking.thy ===== *)
theory Locking
  imports LockOrder Serving
begin

text \<open>
  The mutexes of the program and the order in which its threads take them. For every function of
  \<open>src/swiftcache/src\<close> that runs in a thread of a connection or of a background worker, \<open>f_locks\<close> is the sequence of
  its lock operations, on the same branches as the function. Every method of \<open>DataStore\<close> is one section of the
  store's mutex, and no method calls another that locks.
\<close>

section \<open>The mutexes\<close>

datatype mutex =
    ClientsMutex | PubsubMutex | SendMutex | AofMutex | StoreMutex nat | CommandCountsMutex | WakeupMutex

definition section_of :: "mutex \<Rightarrow> mutex lock_action list" where
  "section_of m = guarded [m] []"

fun mutex_rank :: "mutex \<Rightarrow> nat" where
  "mutex_rank ClientsMutex = 0"
| "mutex_rank AofMutex = 0"
| "mutex_rank _ = 1"

section \<open>Lock operations of the functions\<close>

definition sendResponse_locks :: "mutex lock_action list" where
  "sendResponse_locks = section_of SendMutex"

definition connect_locks :: "mutex lock_action list" where
  "connect_locks = section_of ClientsMutex"

definition disconnect_locks :: "mutex lock_action list" where
  "disconnect_locks = section_of PubsubMutex @ section_of ClientsMutex"

text \<open>\<open>CLIENT INFO\<close> formats the entry while it holds the register of clients; \<open>CLIENT LIST\<close> works on a copy.\<close>

definition handleClientCommand_locks :: "int \<Rightarrow> string list \<Rightarrow> TcpServer \<Rightarrow> mutex lock_action list" where
  "handleClientCommand_locks fd ts srv =
     (let sub = (if length ts \<ge> 2 then toUpper (ts ! 1) else []) in
      if sub = ''COUNT'' \<and> length ts = 2 then []
      else if sub = ''LIST'' \<and> length ts = 2
      then section_of ClientsMutex @ concat (replicate (length (srv_clients srv)) (section_of PubsubMutex))
      else if sub = ''INFO'' \<and> length ts = 2
      then guarded [ClientsMutex]
             (case map_of (srv_clients srv) fd of None \<Rightarrow> [] | Some c \<Rightarrow> section_of PubsubMutex)
      else if sub = ''SETNAME'' \<and> length ts = 3 \<or> sub = ''GETNAME'' \<and> length ts = 2 then section_of ClientsMutex
      else if sub = ''KILL'' \<and> length ts = 3
      then (case parseUnsignedId (ts ! 2) of None \<Rightarrow> [] | Some n \<Rightarrow> section_of ClientsMutex)
      else [])
     @ sendResponse_locks"

definition handleCommandCommand_locks :: "string list \<Rightarrow> mutex lock_action list" where
  "handleCommandCommand_locks ts =
     (if length ts \<noteq> 2 \<or> toUpper (ts ! 1) \<noteq> ''STATS'' then [] else section_of CommandCountsMutex) @ sendResponse_locks"

text \<open>A save reads the databases one after the other; \<open>reads\<close> is how many of them before it ends or fails.\<close>

definition all_stores_locks :: "nat \<Rightarrow> mutex lock_action list" where
  "all_stores_locks n = concat (map (\<lambda>i. section_of (StoreMutex i)) [0..<n])"

definition saveSnapshot_locks :: "nat \<Rightarrow> Aof option \<Rightarrow> mutex lock_action list" where
  "saveSnapshot_locks reads aof =
     (case aof of None \<Rightarrow> all_stores_locks reads | Some a \<Rightarrow> guarded [AofMutex] (all_stores_locks reads))"

definition handlePersistenceCommand_locks :: "nat \<Rightarrow> string list \<Rightarrow> TcpServer \<Rightarrow> mutex lock_action list" where
  "handlePersistenceCommand_locks reads ts srv =
     (if upper_name ts = ''SAVE'' \<and> length ts = 1 \<and> srv_snapshot srv \<noteq> None
      then saveSnapshot_locks (min reads (length (srv_stores srv))) (srv_aof srv) else [])
     @ sendResponse_locks"

definition publish_locks :: "(int \<Rightarrow> bool) \<Rightarrow> string \<Rightarrow> PubSub \<Rightarrow> mutex lock_action list" where
  "publish_locks alive c ps =
     (let fds = map fst (subscribers_of ps c) in
      section_of PubsubMutex
      @ concat (map (\<lambda>fd. sendResponse_locks) fds)
      @ concat (map (\<lambda>fd. section_of PubsubMutex) (filter (\<lambda>fd. \<not> alive fd) fds)))"

definition handlePubSubCommand_locks :: "world \<Rightarrow> string list \<Rightarrow> TcpServer \<Rightarrow> mutex lock_action list" where
  "handlePubSubCommand_locks w ts srv =
     (if upper_name ts = ''SUBSCRIBE'' then (if length ts < 2 then [] else section_of PubsubMutex)
      else if upper_name ts = ''UNSUBSCRIBE'' then section_of PubsubMutex
      else (if length ts \<noteq> 3 then [] else publish_locks (w_reachable w) (ts ! 1) (srv_pubsub srv)))
     @ sendResponse_locks"

text \<open>The mutex of the append-only file is held while a recorded command runs.\<close>

definition executeAndAppend_locks :: "string list \<Rightarrow> Aof option \<Rightarrow> mutex lock_action list \<Rightarrow> mutex lock_action list" where
  "executeAndAppend_locks ts aof body =
     (case aof of
        None \<Rightarrow> body
      | Some a \<Rightarrow> if isAofLoggedCommand ts then guarded [AofMutex] body else body)"

definition moveKeyTo_locks :: "nat \<Rightarrow> nat \<Rightarrow> mutex lock_action list" where
  "moveKeyTo_locks i j = (if i = j then [] else guarded [StoreMutex i, StoreMutex j] [])"

definition handleMoveCommand_locks :: "string list \<Rightarrow> nat \<Rightarrow> TcpServer \<Rightarrow> mutex lock_action list" where
  "handleMoveCommand_locks ts db srv =
     (if length ts \<noteq> 3 then []
      else (case parseDatabaseIndex (ts ! 2) (length (srv_stores srv)) of
              None \<Rightarrow> []
            | Some j \<Rightarrow> executeAndAppend_locks ts (srv_aof srv) (moveKeyTo_locks db j)))
     @ sendResponse_locks"

definition handleFlushAllCommand_locks :: "string list \<Rightarrow> TcpServer \<Rightarrow> mutex lock_action list" where
  "handleFlushAllCommand_locks ts srv =
     (if length ts \<noteq> 1 then []
      else executeAndAppend_locks ts (srv_aof srv) (all_stores_locks (length (srv_stores srv))))
     @ sendResponse_locks"

text \<open>
  \<open>INFO\<close> calls two methods of the store, the size of the append-only file and the command counts. Any other
  command of the registry calls at most one method of the store, none when its arguments are not accepted;
  \<open>accepted\<close> says whether it does.
\<close>

definition InfoCommand_locks :: "string list \<Rightarrow> nat \<Rightarrow> Aof option \<Rightarrow> mutex lock_action list" where
  "InfoCommand_locks args db aof =
     (if args \<noteq> [] then []
      else section_of (StoreMutex db) @ section_of (StoreMutex db)
           @ (case aof of None \<Rightarrow> [] | Some a \<Rightarrow> section_of AofMutex) @ section_of CommandCountsMutex)"

definition registry_locks :: "bool \<Rightarrow> string list \<Rightarrow> nat \<Rightarrow> Aof option \<Rightarrow> mutex lock_action list" where
  "registry_locks accepted ts db aof =
     (if upper_name ts = ''INFO'' then InfoCommand_locks (tl ts) db aof
      else if accepted then section_of (StoreMutex db) else [])"

definition handleData_locks :: "bool \<Rightarrow> world \<Rightarrow> string list \<Rightarrow> nat \<Rightarrow> TcpServer \<Rightarrow> mutex lock_action list" where
  "handleData_locks accepted w ts db srv =
     (if rejectReadOnlyWrite ts srv \<noteq> None then sendResponse_locks
      else if upper_name ts = ''MOVE'' then handleMoveCommand_locks ts db srv
      else if upper_name ts = ''FLUSHALL'' then handleFlushAllCommand_locks ts srv
      else if upper_name ts \<in> {''SUBSCRIBE'', ''UNSUBSCRIBE'', ''PUBLISH''} then handlePubSubCommand_locks w ts srv
      else executeAndAppend_locks ts (srv_aof srv) (registry_locks accepted ts db (srv_aof srv)) @ sendResponse_locks)"

definition handleCommand_locks :: "bool \<Rightarrow> nat \<Rightarrow> world \<Rightarrow> string list \<Rightarrow> session \<Rightarrow> TcpServer \<Rightarrow> mutex lock_action list" where
  "handleCommand_locks accepted reads w ts ses srv =
     section_of CommandCountsMutex @ section_of ClientsMutex
     @ (if upper_name ts = ''AUTH'' then sendResponse_locks @ section_of ClientsMutex
        else if \<not> authenticated ses \<or> upper_name ts \<in> {''READONLY'', ''CONFIG''} then sendResponse_locks
        else if upper_name ts = ''COMMAND'' then handleCommandCommand_locks ts
        else if upper_name ts = ''CLIENT'' then handleClientCommand_locks (ses_fd ses) ts srv
        else if upper_name ts \<in> {''SAVE'', ''LASTSAVE''} then handlePersistenceCommand_locks reads ts srv
        else if upper_name ts = ''SELECT'' then sendResponse_locks @ section_of ClientsMutex
        else handleData_locks accepted w ts (databaseIndex ses) srv)"

text \<open>One command of a connection, with the greeting before it and the end of the connection after it.\<close>

record turn =
  tn_accepted :: bool
  tn_reads :: nat
  tn_world :: world
  tn_command :: ParsedCommand
  tn_session :: session
  tn_server :: TcpServer

definition handleRequest_locks :: "turn \<Rightarrow> mutex lock_action list" where
  "handleRequest_locks tn =
     (let c = tn_command tn; ses = tn_session tn; fd = ses_fd ses; w = tn_world tn;
          greet = (\<not> greetingSent ses \<and> protocol c = Inline) in
      (if greet then sendResponse_locks else [])
      @ (if greet \<and> \<not> w_reachable w fd then disconnect_locks
         else if tokens c = [] then []
         else handleCommand_locks (tn_accepted tn) (tn_reads tn) w (tokens c) ses (tn_server tn)
              @ (case handleRequest w c ses (tn_server tn) of
                   Inl f \<Rightarrow> []
                 | Inr eff \<Rightarrow> if eff_closed eff then disconnect_locks else [])))"

section \<open>Threads\<close>

text \<open>
  A connection with its commands, ended by a command or by its client; the expiry worker with the number of
  databases in each round; the snapshot worker with the reads of each round and the file, where the wait gives the
  mutex back and takes it again.
\<close>

datatype activity = ConnectionThread "turn list" bool | ExpiryThread "nat list" | SnapshotThread "(nat \<times> Aof option) list"

fun activity_locks :: "activity \<Rightarrow> mutex lock_action list" where
  "activity_locks (ConnectionThread tns ended) =
     connect_locks @ concat (map handleRequest_locks tns) @ (if ended then [] else disconnect_locks)"
| "activity_locks (ExpiryThread ns) = concat (map all_stores_locks ns)"
| "activity_locks (SnapshotThread rounds) =
     concat (map (\<lambda>(reads, aof). section_of WakeupMutex @ section_of WakeupMutex @ saveSnapshot_locks reads aof) rounds)"

section \<open>Every function keeps the order\<close>

named_theorems lock_intros
  \<comment> \<open>rules that a sequence of lock operations keeps the order of ranks\<close>

abbreviation keeps_order :: "mutex lock_action list \<Rightarrow> bool" where
  "keeps_order \<equiv> ordered mutex_rank []"

lemma keeps_order_Nil [lock_intros]: "keeps_order []"
  by simp

lemma keeps_order_section [lock_intros]: "keeps_order (section_of m)"
  using ordered_section [of "[m]" "[]" mutex_rank "[]"] by (simp add: section_of_def)

lemma keeps_order_repeat [lock_intros]: "keeps_order p \<Longrightarrow> keeps_order (concat (map (\<lambda>_. p) xs))"
  by (rule ordered_concat) auto

lemma keeps_order_replicate [lock_intros]: "keeps_order p \<Longrightarrow> keeps_order (concat (replicate n p))"
  by (rule ordered_concat) simp

lemma all_stores_sections: "all_stores_locks n = concat (map (\<lambda>xs. guarded xs []) (map (\<lambda>i. [StoreMutex i]) [0..<n]))"
  by (simp add: all_stores_locks_def section_of_def comp_def)

lemma all_stores_order [lock_intros]:
  "keeps_order (all_stores_locks n)" "keeps_order (guarded [AofMutex] (all_stores_locks n))"
  unfolding all_stores_sections by (rule ordered_flat, rule ordered_nested) simp

lemma saveSnapshot_order [lock_intros]: "keeps_order (saveSnapshot_locks n aof)"
  by (cases aof) (simp_all add: saveSnapshot_locks_def all_stores_order)

lemma inner_section_order:
  assumes "\<forall>l\<in>set ls. mutex_rank m < mutex_rank l"
  shows "keeps_order (guarded [m] (guarded ls []))"
  using ordered_nested [of "[ls]" "[m]" mutex_rank] assms by simp

lemma empty_section_order: "keeps_order (guarded [m] [])"
  using keeps_order_section [of m] by (simp add: section_of_def)

lemma sendResponse_order [lock_intros]: "keeps_order sendResponse_locks"
  by (simp add: sendResponse_locks_def keeps_order_section)

lemma disconnect_order [lock_intros]: "keeps_order disconnect_locks"
  unfolding disconnect_locks_def by (intro lock_intros ordered_append)

lemma handleClientCommand_order [lock_intros]: "keeps_order (handleClientCommand_locks fd ts srv)"
proof -
  have "keeps_order (guarded [ClientsMutex] (case map_of (srv_clients srv) fd of None \<Rightarrow> [] | Some c \<Rightarrow> section_of PubsubMutex))"
    by (cases "map_of (srv_clients srv) fd") (simp_all add: empty_section_order inner_section_order section_of_def)
  then show ?thesis unfolding handleClientCommand_locks_def Let_def
    by (intro ordered_append) (auto intro: lock_intros ordered_append split: option.splits)
qed

lemma handleCommandCommand_order [lock_intros]: "keeps_order (handleCommandCommand_locks ts)"
  unfolding handleCommandCommand_locks_def by (auto intro: lock_intros ordered_append)

lemma handlePersistenceCommand_order [lock_intros]: "keeps_order (handlePersistenceCommand_locks n ts srv)"
  unfolding handlePersistenceCommand_locks_def by (auto intro: lock_intros ordered_append)

lemma publish_order [lock_intros]: "keeps_order (publish_locks alive c ps)"
  unfolding publish_locks_def Let_def by (intro ordered_append lock_intros)

lemma handlePubSubCommand_order [lock_intros]: "keeps_order (handlePubSubCommand_locks w ts srv)"
  unfolding handlePubSubCommand_locks_def by (auto intro: lock_intros ordered_append)

lemma handleMoveCommand_order [lock_intros]: "keeps_order (handleMoveCommand_locks ts db srv)"
proof -
  have "keeps_order (moveKeyTo_locks db j)" "keeps_order (guarded [AofMutex] (moveKeyTo_locks db j))" for j
    using ordered_section [of _ "[]" mutex_rank "[]"] by (auto simp: moveKeyTo_locks_def empty_section_order inner_section_order)
  then show ?thesis unfolding handleMoveCommand_locks_def executeAndAppend_locks_def
    by (intro ordered_append) (auto intro: lock_intros split: option.split)
qed

lemma handleFlushAllCommand_order [lock_intros]: "keeps_order (handleFlushAllCommand_locks ts srv)"
  unfolding handleFlushAllCommand_locks_def executeAndAppend_locks_def
  by (intro ordered_append) (auto intro: lock_intros split: option.split)

text \<open>
  \<open>INFO\<close> takes the mutex of the append-only file itself and would wait for itself under \<open>executeAndAppend\<close>; it is
  not recorded, so it does not run there.
\<close>

lemma info_not_logged: "upper_name ts = ''INFO'' \<Longrightarrow> \<not> isAofLoggedCommand ts"
  by (auto simp: isAofLoggedCommand_iff logged_names_def metadataByCommand_def)

lemma registry_order: "keeps_order (executeAndAppend_locks ts aof (registry_locks accepted ts db aof))"
proof (cases "upper_name ts = ''INFO''")
  case True
  then have "executeAndAppend_locks ts aof body = body" for body
    using info_not_logged by (simp add: executeAndAppend_locks_def split: option.split)
  then show ?thesis using True unfolding registry_locks_def InfoCommand_locks_def
    by (auto intro!: lock_intros ordered_append split: option.split)
next
  case False
  have "keeps_order (guarded [AofMutex] (section_of (StoreMutex db)))"
    by (simp add: section_of_def inner_section_order)
  then show ?thesis using False
    by (auto simp: registry_locks_def executeAndAppend_locks_def intro: lock_intros empty_section_order split: option.split)
qed

lemma handleRequest_order: "keeps_order (handleRequest_locks tn)"
proof -
  have data: "keeps_order (handleData_locks accepted w ts db srv)" for accepted w ts db srv
    unfolding handleData_locks_def by (auto intro: lock_intros ordered_append registry_order)
  have "keeps_order (handleCommand_locks accepted reads w ts ses srv)" for accepted reads w ts ses srv
    unfolding handleCommand_locks_def by (intro ordered_append) (auto intro: lock_intros ordered_append data)
  then show ?thesis unfolding handleRequest_locks_def Let_def
    by (intro ordered_append) (auto intro: lock_intros ordered_append split: sum.split)
qed

lemma activity_order: "keeps_order (activity_locks act)"
proof (cases act)
  case (ConnectionThread tns ended)
  have "keeps_order (concat (map handleRequest_locks tns))"
    by (rule ordered_concat) (auto simp: handleRequest_order)
  then show ?thesis using ConnectionThread
    by (auto simp: connect_locks_def intro: lock_intros ordered_append)
next
  case (ExpiryThread ns)
  then show ?thesis by (auto intro!: ordered_concat lock_intros)
next
  case (SnapshotThread rounds)
  then show ?thesis by (auto intro!: ordered_concat ordered_append lock_intros)
qed

interpretation server_locks: lock_order mutex_rank "\<lambda>p. \<exists>act. p = activity_locks act"
  by unfold_locales (auto simp: activity_order)

section \<open>Properties\<close>

text \<open>
  C31: the threads of the server never deadlock. Whatever connections and workers run, and however their lock
  operations interleave: no mutex is ever held by two threads; as long as a thread has something left to do, some
  thread can go on; and every operation brings the end nearer, so that without new requests every run ends with all
  threads finished and no mutex held.
\<close>

theorem no_deadlock_in_server:
  assumes "interleaved (launch (map activity_locks acts)) ts"
  shows "exclusive ts \<and> (finished ts \<or> (\<exists>i ts'. advance i ts = Some ts')) \<and>
    (\<forall>i ts'. advance i ts = Some ts' \<longrightarrow> work ts' < work ts) \<and>
    (finished ts \<longrightarrow> (\<forall>t\<in>set ts. held t = [])) \<and> (\<exists>ts'. interleaved ts ts' \<and> finished ts')"
proof -
  have d: "disciplined mutex_rank ts"
    using server_locks.disciplined_interleaved [OF assms] server_locks.disciplined_launch [of "map activity_locks acts"] by auto
  then have "finished ts \<longrightarrow> (\<forall>t\<in>set ts. held t = [])" by (auto simp: disciplined_def finished_def)
  then show ?thesis
    using d server_locks.no_deadlock [OF d] server_locks.interleaved_finishes [OF d] work_advance
    by (auto simp: disciplined_def)
qed

text \<open>The expiry worker waits for the snapshot worker, which holds the append-only file and the first database.\<close>

definition two_workers :: "activity list" where
  "two_workers = [SnapshotThread [(2, Some \<lparr>aof_file = [], currentAppendDatabase = 0\<rparr>)], ExpiryThread [2]]"

theorem no_deadlock_in_server_witness:
  "\<exists>ts. interleaved (launch (map activity_locks two_workers)) ts \<and> held (ts ! 0) = [StoreMutex 0, AofMutex] \<and>
     advance 1 ts = None \<and> \<not> finished ts \<and> (\<exists>i ts'. advance i ts = Some ts') \<and> (\<exists>ts'. interleaved ts ts' \<and> finished ts')"
proof -
  let ?ts = "[\<lparr>held = [StoreMutex 0, AofMutex], todo = Unlock [StoreMutex 0] # section_of (StoreMutex 1) @ [Unlock [AofMutex]]\<rparr>,
      \<lparr>held = [], todo = all_stores_locks 2\<rparr>]"
  note defs = two_workers_def all_stores_locks_def saveSnapshot_locks_def section_of_def guarded_def
  have "schedule (replicate 6 0) (launch (map activity_locks two_workers)) = Some ?ts"
    by (simp add: defs launch_def advance_def is_free_def numeral_eq_Suc)
  then have i: "interleaved (launch (map activity_locks two_workers)) ?ts" by (rule schedule_interleaved [OF interleaved.start])
  moreover have "advance 1 ?ts = None" "\<not> finished ?ts"
    by (simp_all add: defs advance_def is_free_def finished_def numeral_eq_Suc)
  ultimately show ?thesis using no_deadlock_in_server [OF i] by (intro exI [of _ ?ts]) simp
qed

end
