(* ===== verification/Spec2Isabelle.thy ===== *)
theory Spec2Isabelle
  imports Restart SingleStore Program AtomicMetrics Locking
begin

text \<open>
  SwiftCache is an in-memory key-value server in C++ (\<open>src/swiftcache/src\<close>). A client sends commands
  over TCP, in plain lines or in RESP; the server parses them, runs them on one of several databases,
  records those that change data in an append-only file, saves snapshots, and answers. This
  development models the program from the bytes of a connection to the bytes of the response and the
  contents of the two files, and proves what makes each part and their composition correct.

  \<^bold>\<open>Parts of the program and the theories that model them.\<close>

  \<^item> \<open>Prelude\<close>: the outcome type (undefined behaviour and uncaught exceptions of C++ are values of
    \<open>fault\<close>), 64-bit range checks, and three interfaces as locales: \<open>umap\<close> (what the program relies on
    from a hash table; interpreted on association lists), \<open>prefix_codec\<close> (an encoder and a decoder
    that reads back one value and leaves the rest; interpreted on RESP requests, on the bulk strings
    and hash fields of snapshots, and on RESP responses) and \<open>machine\<close> (a step function that keeps an
    invariant; interpreted on the store, the command registry and the subscription maps). \<open>CppText\<close>:
    the character and number routines of the C++ library the sources use, and \<open>utils/StringUtils.cpp\<close>.
  \<^item> \<open>PatternMatch\<close>, \<open>StoreCore\<close>, \<open>StoreEviction\<close>, \<open>StoreStrings\<close>, \<open>StoreCollections\<close>, \<open>StoreKeys\<close>:
    the class \<open>DataStore\<close> (\<open>datastore/DataStore.cpp\<close>), one function \<open>ds_f\<close> per method \<open>f\<close>. The state is
    the record \<open>DataStore\<close>; the argument \<open>env\<close> holds what the implementation leaves open (readings of the
    clock, walk order of a hash table, random numbers, rehashing, sizes of types). The locale
    \<open>scan_policy\<close> gives the order in which the three scanning policies evict.
  \<^item> \<open>StoreSpec\<close>, \<open>StoreRefine\<close>: the abstract key space (a map from keys to typed values with a
    deadline), its operations, and the refinement of one by
    the other on the part of the store that has not expired. \<open>StoreEvicting\<close>: the same under every
    eviction policy, where a step of the specification may be followed by the loss of evicted keys.
  \<^item> \<open>CommandParser\<close> (\<open>parser/CommandParser.cpp\<close>), \<open>CommandMetadata\<close>, \<open>Commands\<close> and \<open>ServerMetrics\<close>
    (\<open>core\<close> and \<open>commands\<close>): the incremental parser, the table of command properties, the 37 commands
    and their registry, and the counters. \<open>CommandSpec\<close> states each command as a grammar for its
    arguments, one store operation, and a rendering of the reply.
  \<^item> \<open>AofPersistence\<close>, \<open>DataCommands\<close>, \<open>Durability\<close> (\<open>core/AofPersistence.cpp\<close>): recording and replay,
    and that replay restores what a run left. \<open>SnapshotPersistence\<close> (\<open>core/SnapshotPersistence.cpp\<close>):
    the file format, saving and loading. \<open>Restart\<close>: saving, checkpoint, further writes and a new start.
    \<open>SingleStore\<close>: the overloads of both classes for one store.
  \<^item> \<open>RespFormat\<close>, \<open>PubSub\<close>, \<open>TcpServer\<close>, \<open>ServerSafety\<close> (\<open>networking/TcpServer.cpp\<close>): the formatting of
    responses with a model of how a client reads them, the subscription maps, every handler, the
    chain of \<open>handleClient\<close>, and what a client can and cannot do.
  \<^item> \<open>Serving\<close>: the running program as a transition system of connections and background workers
    (\<open>core/ExpiryWorker.cpp\<close>, \<open>core/SnapshotWorker.cpp\<close>); \<open>ServerConfig\<close> and \<open>Startup\<close>: \<open>main.cpp\<close>, from the
    arguments and the configuration file to the loaded server. \<open>Sockets\<close>: the calls on sockets of
    \<open>networking/TcpServer.cpp\<close> (\<open>start\<close>, \<open>stop\<close>, \<open>acceptLoop\<close>, \<open>sendResponse\<close>). \<open>Workers\<close>: the threads of the two
    background workers, their loops, starting and stopping. \<open>Program\<close>: the function \<open>main\<close> as a whole.
  \<^item> \<open>AtomicMetrics\<close>: \<open>clientConnected\<close> and \<open>clientDisconnected\<close> as the relaxed atomic operations of many threads.
    \<open>LockOrder\<close>: threads that take mutexes, and the locale \<open>lock_order\<close> (locks are taken in increasing rank), which
    gives mutual exclusion and progress. \<open>Locking\<close>: the mutexes of the program and the lock operations of every
    function that runs in a thread, on which the locale is interpreted.

  \<^bold>\<open>What the lemmas show.\<close> For the store: well-formedness under every operation and policy, the
  refinement of the abstract key space (with eviction, up to the keys it removed), exactly when an operation leaves defined behaviour, and the
  bounds, the order and the accounting of eviction. For the protocol: the parser does not depend on
  how the bytes are cut, reads back what the encoder writes, and every response is one RESP value.
  For persistence: the append-only file and the snapshot restore the data, alone and together over a
  restart, and saving is atomic. For the sockets and threads: a response is sent whole, the listening
  socket is not leaked, and the workers stop; for \<open>main\<close>: exactly when and with which code it ends. For
  the threads: none ever waits in a circle for the mutexes, and the counters of clients agree with the calls made one
  after the other. For
  the server: its invariant under every command and every interleaving, the protection by the
  password and by read-only mode, one answer per command, and agreement of the subscription maps.
  For the start: bounds of the configuration, and safety of the server whatever the files contain.
  Several theorems show where the code departs from what it means to do; they are stated on
  concrete inputs.

  \<^bold>\<open>Choices.\<close> Loops over data are total functions with termination proofs, so no fuel is needed. The
  loops that wait for the outside (\<open>sendLoop\<close>, \<open>acceptLoop\<close>, \<open>expiry_run\<close>, \<open>snapshot_run\<close>) are
  partial functions with the value \<open>None\<close> for a run that never returns; that they return, or do
  not, is proved. Values of type
  \<open>long long\<close> are integers with a range check at every operation that can overflow; counters that wrap
  are 64-bit words; sizes are natural numbers, since memory ends before \<open>size_t\<close> does. What the operating
  system decides (success of file operations, reachability of a client, arrival of bytes) is an
  argument of the definitions. The mutexes of the program make each store operation, and each
  execution with its recording, one step; \<open>Locking\<close> shows that the mutexes exclude each other and do not block.
  There, a call of \<open>send\<close> counts as returning; what happens when it does not is outside the model.

  \<^bold>\<open>Not modelled.\<close> The length of waits, failures to create a thread, the usage text and the messages on the error
  stream, accessors of file names and counters, the tests and the build. The data of a command is changed in one step
  of its thread: states between two critical sections of one command are seen in \<open>Locking\<close> and \<open>AtomicMetrics\<close>
  only. A server or a worker constructed on a single store, which \<open>main\<close> does not use, behaves as one on a list of one
  store; its files are modelled in \<open>SingleStore\<close>.
\<close>

end
